theory Spec2Isabelle
  imports Complex_Main
begin

section \<open>gpx-interpolate: data model\<close>

text \<open>
  The script \<^verbatim>\<open>gpx-interpolate.py\<close> works on a dictionary \<^verbatim>\<open>GPXData\<close> with the keys
  \<^verbatim>\<open>lat\<close>, \<^verbatim>\<open>lon\<close>, \<^verbatim>\<open>ele\<close>, \<^verbatim>\<open>tstamp\<close> (each a list of floats or \<^verbatim>\<open>None\<close>) and
  \<^verbatim>\<open>tzinfo\<close>. The dictionary becomes a record; a channel is a \<open>real list option\<close>.

  Python floats are modelled as real numbers: rounding, overflow and underflow of IEEE
  arithmetic are outside the model, with one exception. The running sum of
  \<^verbatim>\<open>np.cumsum\<close> in \<^verbatim>\<open>gpx_interpolate\<close> decides whether the knots handed to the
  interpolator are strictly increasing, and the addition of doubles leaves a sum
  unchanged when the term added is below half a unit in the last place of the sum; so
  that addition is a parameter of the model (\<open>add_fn\<close>), of which a theorem uses only
  what it assumes. A NaN is modelled where the code itself creates one
  (the assignment of \<^verbatim>\<open>np.nan\<close> in \<^verbatim>\<open>gpx_calculate_speed\<close>); the square root and the arc
  sine of the haversine formula never leave their domain in exact arithmetic
  (lemma \<open>hav_arg_bounds\<close>), so no NaN arises there.

  Every exception the code can raise is a value of the type \<open>error\<close>, and a function
  that may raise returns \<open>error + 'a\<close> with \<open>Inl\<close> for the exception.
\<close>

datatype error = TypeError | IndexError | ValueError | OverflowError | SystemExit

datatype tz = UTC | Zone string

record gpx_data =
  lat :: "real list option"
  lon :: "real list option"
  ele :: "real list option"
  tstamp :: "real list option"
  tzinfo :: "tz option"

definition EARTH_RADIUS :: real where
  "EARTH_RADIUS = 6371000"

definition EPS :: real where
  "EPS = 1 / 1000000"

text \<open>Sequencing of computations that may raise.\<close>

definition bind_e :: "error + 'a \<Rightarrow> ('a \<Rightarrow> error + 'b) \<Rightarrow> error + 'b" where
  "bind_e m f = (case m of Inl e \<Rightarrow> Inl e | Inr x \<Rightarrow> f x)"

text \<open>Python truthiness of a channel: \<^verbatim>\<open>None\<close> and \<^verbatim>\<open>[]\<close> are false.\<close>

definition truthy :: "real list option \<Rightarrow> bool" where
  "truthy c = (case c of None \<Rightarrow> False | Some xs \<Rightarrow> xs \<noteq> [])"

text \<open>\<^verbatim>\<open>len(c)\<close>: a \<^verbatim>\<open>TypeError\<close> on \<^verbatim>\<open>None\<close>.\<close>

definition len :: "real list option \<Rightarrow> error + nat" where
  "len c = (case c of None \<Rightarrow> Inl TypeError | Some xs \<Rightarrow> Inr (length xs))"

text \<open>\<^verbatim>\<open>c[i]\<close> for \<open>i \<ge> 0\<close>: a \<^verbatim>\<open>TypeError\<close> on \<^verbatim>\<open>None\<close>, an \<^verbatim>\<open>IndexError\<close> out of range.\<close>

definition getitem :: "real list option \<Rightarrow> nat \<Rightarrow> error + real" where
  "getitem c i =
     (case c of
        None \<Rightarrow> Inl TypeError
      | Some xs \<Rightarrow> if i < length xs then Inr (xs ! i) else Inl IndexError)"

section \<open>gpx\_calculate\_distance\<close>

definition radians :: "real \<Rightarrow> real" where
  "radians x = x * pi / 180"

text \<open>The argument of the square root in the haversine formula (angles in radians).\<close>

definition hav_arg :: "real \<Rightarrow> real \<Rightarrow> real \<Rightarrow> real \<Rightarrow> real" where
  "hav_arg lat1 lon1 lat2 lon2 =
     (let delta_lat = lat2 - lat1;
          delta_lon = lon2 - lon1
      in (sin (delta_lat / 2))\<^sup>2 + cos lat1 * cos lat2 * (sin (delta_lon / 2))\<^sup>2)"

text \<open>Lines 105 to 115: the great-circle distance of two points given in degrees.\<close>

definition dist_latlon :: "real \<Rightarrow> real \<Rightarrow> real \<Rightarrow> real \<Rightarrow> real" where
  "dist_latlon la1 lo1 la2 lo2 =
     (let lat1 = radians la1;
          lon1 = radians lo1;
          lat2 = radians la2;
          lon2 = radians lo2;
          c = 2 * arcsin (sqrt (hav_arg lat1 lon1 lat2 lon2))
      in EARTH_RADIUS * c)"

text \<open>
  The body of the loop for index \<open>i\<close>: the value stored in \<^verbatim>\<open>gpx_dist[i+1]\<close>. The
  subscripts are evaluated in the order of the source.
\<close>

definition dist_step :: "gpx_data \<Rightarrow> bool \<Rightarrow> nat \<Rightarrow> error + real" where
  "dist_step d use_ele i =
     bind_e (getitem (lat d) i) (\<lambda>la1.
     bind_e (getitem (lon d) i) (\<lambda>lo1.
     bind_e (getitem (lat d) (i + 1)) (\<lambda>la2.
     bind_e (getitem (lon d) (i + 1)) (\<lambda>lo2.
       let dll = dist_latlon la1 lo1 la2 lo2 in
       if truthy (ele d) \<and> use_ele then
         bind_e (getitem (ele d) (i + 1)) (\<lambda>e2.
         bind_e (getitem (ele d) i) (\<lambda>e1.
           let dist_ele = e2 - e1 in Inr (sqrt (dll\<^sup>2 + dist_ele\<^sup>2))))
       else Inr dll))))"

text \<open>The loop over \<^verbatim>\<open>range(len(gpx_dist)-1)\<close>, updating the array \<^verbatim>\<open>gpx_dist\<close>.\<close>

fun dist_loop :: "gpx_data \<Rightarrow> bool \<Rightarrow> nat list \<Rightarrow> real list \<Rightarrow> error + real list" where
  "dist_loop d use_ele [] gpx_dist = Inr gpx_dist"
| "dist_loop d use_ele (i # is) gpx_dist =
     (case dist_step d use_ele i of
        Inl e \<Rightarrow> Inl e
      | Inr v \<Rightarrow> dist_loop d use_ele is (gpx_dist[i + 1 := v]))"

definition gpx_calculate_distance :: "gpx_data \<Rightarrow> bool \<Rightarrow> error + real list" where
  "gpx_calculate_distance d use_ele =
     bind_e (len (lat d)) (\<lambda>n.
       dist_loop d use_ele [0..<n - 1] (replicate n 0))"


section \<open>gpx\_calculate\_speed\<close>

text \<open>
  A numpy float that may be infinite or NaN. Only \<^verbatim>\<open>gpx_calculate_speed\<close> and the
  average speed of the console summary need it.
\<close>

datatype npfloat = Fin real | PInf | NInf | NaN

text \<open>\<^verbatim>\<open>np.diff(a, prepend=p)\<close>: the differences of \<open>p # a\<close>.\<close>

definition np_diff_prepend :: "real list \<Rightarrow> real \<Rightarrow> real list" where
  "np_diff_prepend a p = (let b = p # a in map (\<lambda>i. b ! (i + 1) - b ! i) [0..<length a])"

text \<open>\<^verbatim>\<open>gpx_dtstamp[gpx_dtstamp < EPS] = np.nan\<close>\<close>

definition mask_below_eps :: "real list \<Rightarrow> npfloat list" where
  "mask_below_eps xs = map (\<lambda>x. if x < EPS then NaN else Fin x) xs"

text \<open>Division of a finite float by a numpy float (the sign of a zero is not modelled).\<close>

fun np_div :: "real \<Rightarrow> npfloat \<Rightarrow> npfloat" where
  "np_div x (Fin y) =
     (if y \<noteq> 0 then Fin (x / y) else if x = 0 then NaN else if 0 < x then PInf else NInf)"
| "np_div x PInf = Fin 0"
| "np_div x NInf = Fin 0"
| "np_div x NaN = NaN"

text \<open>
  \<^verbatim>\<open>gpx_dist/gpx_dtstamp\<close> on one-dimensional operands: elementwise, an operand of
  length one is broadcast, any other mismatch of the lengths is a \<^verbatim>\<open>ValueError\<close>.
\<close>

definition np_divide :: "real list \<Rightarrow> npfloat list \<Rightarrow> error + npfloat list" where
  "np_divide xs ys =
     (if length xs = length ys then Inr (map (\<lambda>(x, y). np_div x y) (zip xs ys))
      else if length ys = 1 then Inr (map (\<lambda>x. np_div x (hd ys)) xs)
      else if length xs = 1 then Inr (map (\<lambda>y. np_div (hd xs) y) ys)
      else Inl ValueError)"

definition FLOAT_MAX :: real where
  "FLOAT_MAX = (2 - 1 / 2 ^ 52) * 2 ^ 1023"

text \<open>\<^verbatim>\<open>np.nan_to_num(x, nan=0.0)\<close>\<close>

fun nan_to_num :: "npfloat \<Rightarrow> real" where
  "nan_to_num (Fin x) = x"
| "nan_to_num PInf = FLOAT_MAX"
| "nan_to_num NInf = - FLOAT_MAX"
| "nan_to_num NaN = 0"

definition gpx_calculate_speed :: "gpx_data \<Rightarrow> error + real list" where
  "gpx_calculate_speed d =
     bind_e (gpx_calculate_distance d True) (\<lambda>gpx_dist.
     bind_e (getitem (tstamp d) 0) (\<lambda>t0.
       let gpx_dtstamp = mask_below_eps (np_diff_prepend (the (tstamp d)) t0) in
       bind_e (np_divide gpx_dist gpx_dtstamp) (\<lambda>q.
         Inr (map nan_to_num q))))"

section \<open>gpx\_remove\_duplicates\<close>

text \<open>
  A function of the source that returns a dictionary returns either the very object it
  was given or a new one. The difference matters where the caller later mutates the
  argument in place.
\<close>

datatype 'a returned = Argument | Fresh 'a

definition value_of :: "'a \<Rightarrow> 'a returned \<Rightarrow> 'a" where
  "value_of arg r = (case r of Argument \<Rightarrow> arg | Fresh v \<Rightarrow> v)"

text \<open>A list comprehension whose element expression may raise.\<close>

fun map_e :: "('a \<Rightarrow> error + 'b) \<Rightarrow> 'a list \<Rightarrow> error + 'b list" where
  "map_e f [] = Inr []"
| "map_e f (x # xs) =
     (case f x of
        Inl e \<Rightarrow> Inl e
      | Inr y \<Rightarrow> (case map_e f xs of Inl e \<Rightarrow> Inl e | Inr ys \<Rightarrow> Inr (y # ys)))"

text \<open>\<^verbatim>\<open>np.nonzero(a)[0]\<close>: the indices of the entries that are not zero.\<close>

definition np_nonzero :: "real list \<Rightarrow> nat list" where
  "np_nonzero a = filter (\<lambda>i. a ! i \<noteq> 0) [0..<length a]"

text \<open>\<^verbatim>\<open>[gpx_data[k][i] for i in i_dist] if gpx_data[k] else None\<close>\<close>

definition reindex :: "real list option \<Rightarrow> nat list \<Rightarrow> error + real list option" where
  "reindex c i_dist =
     (if truthy c then bind_e (map_e (getitem c) i_dist) (\<lambda>xs. Inr (Some xs))
      else Inr None)"

definition gpx_remove_duplicates_obj :: "gpx_data \<Rightarrow> error + gpx_data returned" where
  "gpx_remove_duplicates_obj d =
     bind_e (gpx_calculate_distance d False) (\<lambda>gpx_dist.
       let i_dist = 0 # np_nonzero gpx_dist in
       if length i_dist = length gpx_dist then Inr Argument
       else
         bind_e (reindex (lat d) i_dist) (\<lambda>la.
         bind_e (reindex (lon d) i_dist) (\<lambda>lo.
         bind_e (reindex (ele d) i_dist) (\<lambda>el.
         bind_e (reindex (tstamp d) i_dist) (\<lambda>ts.
           Inr (Fresh \<lparr>lat = la, lon = lo, ele = el, tstamp = ts, tzinfo = tzinfo d\<rparr>))))))"

definition gpx_remove_duplicates :: "gpx_data \<Rightarrow> error + gpx_data" where
  "gpx_remove_duplicates d =
     bind_e (gpx_remove_duplicates_obj d) (\<lambda>r. Inr (value_of d r))"

section \<open>gpx\_interpolate\<close>

text \<open>
  \<^verbatim>\<open>scipy.interpolate.pchip_interpolate(xi, yi, x, axis=1)\<close> is a library function whose
  code is not part of the script. The model takes it as a parameter: it receives the
  knots, the rows of known values and the query points, and returns the rows of
  interpolated values or raises.
\<close>

type_synonym pchip_fn = "real list \<Rightarrow> real list list \<Rightarrow> real list \<Rightarrow> error + real list list"

text \<open>
  \<^verbatim>\<open>np.cumsum\<close>: the first element is the first element of the array, and every further
  element is the running sum plus the next element, added as doubles. The addition
  \<open>fadd\<close> is the parameter: for the script it is the rounded addition of IEEE doubles,
  and \<open>(+)\<close> is the exact addition.
\<close>

type_synonym add_fn = "real \<Rightarrow> real \<Rightarrow> real"

fun cumsum_from :: "add_fn \<Rightarrow> real \<Rightarrow> real list \<Rightarrow> real list" where
  "cumsum_from fadd acc [] = []"
| "cumsum_from fadd acc (x # xs) = fadd acc x # cumsum_from fadd (fadd acc x) xs"

definition cumsum :: "add_fn \<Rightarrow> real list \<Rightarrow> real list" where
  "cumsum fadd xs = (case xs of [] \<Rightarrow> [] | x # xs' \<Rightarrow> x # cumsum_from fadd x xs')"

text \<open>\<^verbatim>\<open>a[0]\<close> and \<^verbatim>\<open>a[-1]\<close> on an array.\<close>

definition first_e :: "'a list \<Rightarrow> error + 'a" where
  "first_e xs = (case xs of [] \<Rightarrow> Inl IndexError | x # _ \<Rightarrow> Inr x)"

definition last_e :: "'a list \<Rightarrow> error + 'a" where
  "last_e xs = (if xs = [] then Inl IndexError else Inr (last xs))"

text \<open>\<^verbatim>\<open>y[i, :]\<close> on a two-dimensional array.\<close>

definition row :: "real list list \<Rightarrow> nat \<Rightarrow> error + real list" where
  "row y i = (if i < length y then Inr (y ! i) else Inl IndexError)"

text \<open>
  \<^verbatim>\<open>np.array(rows)\<close>: the rows must have one length (numpy raises a \<^verbatim>\<open>ValueError\<close> on
  ragged rows since version 1.24).
\<close>

definition np_array2 :: "real list list \<Rightarrow> error + real list list" where
  "np_array2 rows =
     (if \<forall>r\<in>set rows. length r = length (hd rows) then Inr rows else Inl ValueError)"

text \<open>
  \<^verbatim>\<open>int(np.ceil(xi[-1]/distance))\<close>: a numpy float divided by zero is infinite or NaN, and
  \<^verbatim>\<open>int\<close> raises on both.
\<close>

definition ceil_div :: "real \<Rightarrow> real \<Rightarrow> error + int" where
  "ceil_div arc_length distance =
     (if distance = 0 then (if arc_length = 0 then Inl ValueError else Inl OverflowError)
      else Inr \<lceil>arc_length / distance\<rceil>)"

text \<open>\<^verbatim>\<open>np.linspace(start, stop, num=num, endpoint=True)\<close>\<close>

definition np_linspace :: "real \<Rightarrow> real \<Rightarrow> int \<Rightarrow> error + real list" where
  "np_linspace start stop num =
     (if num < 0 then Inl ValueError
      else
        let n = nat num;
            delta = stop - start;
            y = (if 1 < n then map (\<lambda>i. real i * (delta / real (n - 1)) + start) [0..<n]
                 else map (\<lambda>i. real i * delta + start) [0..<n])
        in Inr (if 1 < n then y[n - 1 := stop] else y))"

text \<open>
  Lines 88 to 92: the dictionary built from the rows of the interpolated array; \<open>d\<close> is
  the argument of \<^verbatim>\<open>gpx_interpolate\<close>.
\<close>

definition interp_result :: "real list list \<Rightarrow> gpx_data \<Rightarrow> error + gpx_data" where
  "interp_result y d =
     bind_e (row y 0) (\<lambda>la.
     bind_e (row y 1) (\<lambda>lo.
     bind_e (if truthy (ele d) then bind_e (row y 2) (\<lambda>r. Inr (Some r)) else Inr None) (\<lambda>el.
     bind_e (if truthy (tstamp d) then bind_e (last_e y) (\<lambda>r. Inr (Some r)) else Inr None)
       (\<lambda>ts.
       Inr \<lparr>lat = Some la, lon = Some lo, ele = el, tstamp = ts, tzinfo = tzinfo d\<rparr>))))"

definition gpx_interpolate_obj ::
  "pchip_fn \<Rightarrow> add_fn \<Rightarrow> gpx_data \<Rightarrow> real \<Rightarrow> int option \<Rightarrow> error + gpx_data returned" where
  "gpx_interpolate_obj pchip_interpolate fadd d distance num =
     (if \<forall>c\<in>set [lat d, lon d, ele d, tstamp d]. c = None \<or> c = Some [] then Inr Argument
      else
        bind_e (gpx_remove_duplicates d) (\<lambda>gpx_data'.
        bind_e (gpx_calculate_distance gpx_data' True) (\<lambda>gpx_dist'.
          let xi = cumsum fadd gpx_dist' in
          bind_e (np_array2 (map the (filter truthy
                    [lat gpx_data', lon gpx_data', ele gpx_data', tstamp gpx_data']))) (\<lambda>yi.
          bind_e (case num of
                    Some k \<Rightarrow> Inr k
                  | None \<Rightarrow> bind_e (last_e xi) (\<lambda>arc_length. ceil_div arc_length distance)) (\<lambda>num'.
          bind_e (first_e xi) (\<lambda>x0.
          bind_e (last_e xi) (\<lambda>xn.
          bind_e (np_linspace x0 xn num') (\<lambda>x.
          bind_e (pchip_interpolate xi yi x) (\<lambda>y.
          bind_e (interp_result y d) (\<lambda>gpx_data_interp.
            Inr (Fresh gpx_data_interp)))))))))))"

definition gpx_interpolate ::
  "pchip_fn \<Rightarrow> add_fn \<Rightarrow> gpx_data \<Rightarrow> real \<Rightarrow> int option \<Rightarrow> error + gpx_data" where
  "gpx_interpolate pchip_interpolate fadd d distance num =
     bind_e (gpx_interpolate_obj pchip_interpolate fadd d distance num)
       (\<lambda>r. Inr (value_of d r))"

section \<open>gpx\_read\<close>

text \<open>
  A track point as the GPX parser delivers it: elevation and time may be missing, and a
  time carries its timestamp and its time zone (none for a naive time). The parser
  itself is a library; the model starts from the parsed tracks, segments and points.
\<close>

record gpx_point =
  latitude :: real
  longitude :: real
  elevation :: "real option"
  time :: "(real \<times> tz option) option"

definition append_chan :: "real list option \<Rightarrow> real \<Rightarrow> real list option" where
  "append_chan c v = (case c of None \<Rightarrow> None | Some xs \<Rightarrow> Some (xs @ [v]))"

text \<open>The body of the innermost loop of \<^verbatim>\<open>gpx_read\<close>.\<close>

definition read_point :: "gpx_data \<Rightarrow> gpx_point \<Rightarrow> gpx_data" where
  "read_point g p =
     \<lparr>lat = append_chan (lat g) (latitude p),
      lon = append_chan (lon g) (longitude p),
      ele = append_chan (ele g) (case elevation p of Some e \<Rightarrow> e | None \<Rightarrow> 0),
      tstamp = append_chan (tstamp g) (case time p of Some (t, z) \<Rightarrow> t | None \<Rightarrow> 0),
      tzinfo = (case time p of Some (t, z) \<Rightarrow> z | None \<Rightarrow> Some UTC)\<rparr>"

definition gpx_read :: "gpx_point list list list \<Rightarrow> gpx_data" where
  "gpx_read tracks =
     foldl read_point
       \<lparr>lat = Some [], lon = Some [], ele = Some [], tstamp = Some [], tzinfo = None\<rparr>
       (concat (concat tracks))"

section \<open>gpx\_write\<close>

text \<open>
  The point handed to the GPX library, and the file system: the contents of the files,
  and the paths that cannot be opened for writing. The serialisation \<^verbatim>\<open>to_xml\<close> is a
  parameter (a library function).
\<close>

record track_point =
  point_lat :: real
  point_lon :: real
  point_ele :: "real option"
  point_time :: "(real \<times> tz option) option"
  point_speed :: "real option"

record world =
  files :: "string \<Rightarrow> string option"
  unwritable :: "string \<Rightarrow> bool"

type_synonym to_xml_fn = "string \<Rightarrow> track_point list \<Rightarrow> string"

text \<open>The body of the loop of \<^verbatim>\<open>gpx_write\<close> for index \<open>i\<close>.\<close>

definition make_point :: "gpx_data \<Rightarrow> real list option \<Rightarrow> nat \<Rightarrow> error + track_point" where
  "make_point d gpx_speed i =
     bind_e (getitem (lat d) i) (\<lambda>la.
     bind_e (getitem (lon d) i) (\<lambda>lo.
     bind_e (if truthy (ele d) then bind_e (getitem (ele d) i) (\<lambda>e. Inr (Some e))
             else Inr None) (\<lambda>el.
     bind_e (if truthy (tstamp d)
             then bind_e (getitem (tstamp d) i) (\<lambda>t. Inr (Some (t, tzinfo d)))
             else Inr None) (\<lambda>tm.
     bind_e (case gpx_speed of
               Some sp \<Rightarrow> bind_e (getitem (Some sp) i) (\<lambda>v. Inr (Some v))
             | None \<Rightarrow> Inr None) (\<lambda>sp.
       Inr \<lparr>point_lat = la, point_lon = lo, point_ele = el, point_time = tm,
            point_speed = sp\<rparr>)))))"

text \<open>
  \<^verbatim>\<open>gpx_write\<close> returns the file system it leaves behind and the exception it raised,
  if any. The parameter \<^verbatim>\<open>gpx_dist\<close> is not used by the source either.
\<close>

definition gpx_write ::
  "to_xml_fn \<Rightarrow> world \<Rightarrow> string \<Rightarrow> gpx_data \<Rightarrow> real list \<Rightarrow> bool \<Rightarrow> world \<times> error option" where
  "gpx_write to_xml w gpx_file d gpx_dist write_speed =
     (case (if write_speed
            then (if \<not> truthy (tstamp d) then Inl ValueError
                  else bind_e (gpx_calculate_speed d) (\<lambda>sp. Inr (Some sp)))
            else Inr None) of
        Inl e \<Rightarrow> (w, Some e)
      | Inr gpx_speed \<Rightarrow>
          (case bind_e (len (lat d)) (\<lambda>n. map_e (make_point d gpx_speed) [0..<n]) of
             Inl e \<Rightarrow> (w, Some e)
           | Inr points \<Rightarrow>
               if unwritable w gpx_file then (w, Some SystemExit)
               else
                 (w\<lparr>files := (files w)
                      (gpx_file := Some (to_xml (if write_speed then ''1.0'' else ''1.1'')
                                           points))\<rparr>,
                  None)))"

section \<open>main\<close>

record args =
  distance :: real
  num :: "int option"
  intervaltime :: "real option"
  velocity :: real
  speed :: bool
  begintime :: "string option"

text \<open>\<^verbatim>\<open>c[i] = v\<close>: a \<^verbatim>\<open>TypeError\<close> on \<^verbatim>\<open>None\<close>, an \<^verbatim>\<open>IndexError\<close> out of range.\<close>

definition setitem :: "real list option \<Rightarrow> nat \<Rightarrow> real \<Rightarrow> error + real list option" where
  "setitem c i v =
     (case c of
        None \<Rightarrow> Inl TypeError
      | Some xs \<Rightarrow> if i < length xs then Inr (Some (xs[i := v])) else Inl IndexError)"

text \<open>A \<^verbatim>\<open>for\<close> loop over indices whose body updates a state or raises.\<close>

fun for_each :: "nat list \<Rightarrow> (nat \<Rightarrow> 's \<Rightarrow> error + 's) \<Rightarrow> 's \<Rightarrow> error + 's" where
  "for_each [] body s = Inr s"
| "for_each (i # is) body s =
     (case body i s of Inl e \<Rightarrow> Inl e | Inr s' \<Rightarrow> for_each is body s')"

text \<open>Line 287: \<^verbatim>\<open>tstamp[i] = tstamp[i] + deltatime\<close>\<close>

definition shift_step :: "real \<Rightarrow> nat \<Rightarrow> real list option \<Rightarrow> error + real list option" where
  "shift_step deltatime i ts = bind_e (getitem ts i) (\<lambda>t. setitem ts i (t + deltatime))"

text \<open>Line 293: \<^verbatim>\<open>tstamp[i+1] = tstamp[i] + gpx_dtstamps[i+1]\<close>\<close>

definition velocity_step ::
  "real list \<Rightarrow> nat \<Rightarrow> real list option \<Rightarrow> error + real list option" where
  "velocity_step gpx_dtstamps i ts =
     bind_e (getitem ts i) (\<lambda>t.
     bind_e (getitem (Some gpx_dtstamps) (i + 1)) (\<lambda>dt.
       setitem ts (i + 1) (t + dt)))"

text \<open>Line 298: \<^verbatim>\<open>tstamp[i+1] = tstamp[i] + args.intervaltime\<close>\<close>

definition interval_step :: "real \<Rightarrow> nat \<Rightarrow> real list option \<Rightarrow> error + real list option" where
  "interval_step dt i ts = bind_e (getitem ts i) (\<lambda>t. setitem ts (i + 1) (t + dt))"

text \<open>
  Lines 281 to 287: the begin-time shift. The conversion of the \<^verbatim>\<open>--begintime\<close> string
  to seconds since the epoch is a library matter and a parameter here; it yields \<open>None\<close>
  where \<^verbatim>\<open>strptime\<close> raises. The timestamps \<open>ts\<close> are those of \<^verbatim>\<open>gpx_data\<close>.
\<close>

definition begin_time_shift ::
  "(string \<Rightarrow> real option) \<Rightarrow> args \<Rightarrow> gpx_data \<Rightarrow> real list option \<Rightarrow>
     error + real list option" where
  "begin_time_shift parse_begintime a d ts =
     (case begintime a of
        None \<Rightarrow> Inr ts
      | Some s \<Rightarrow>
          if s = [] then Inr ts
          else
            (case parse_begintime s of
               None \<Rightarrow> Inl ValueError
             | Some dt_utc \<Rightarrow>
                 bind_e (getitem ts 0) (\<lambda>t0.
                   let deltatime = dt_utc - t0 in
                   bind_e (len (lat d)) (\<lambda>n. for_each [0..<n] (shift_step deltatime) ts))))"

text \<open>Lines 289 to 293: the constant-velocity retiming.\<close>

definition velocity_retiming ::
  "args \<Rightarrow> real list \<Rightarrow> gpx_data \<Rightarrow> real list option \<Rightarrow> error + real list option" where
  "velocity_retiming a gpx_dist d ts =
     (if velocity a \<noteq> 0 \<and> velocity a > 0
      then
        let gpx_dtstamps = map (\<lambda>x. x / velocity a) gpx_dist in
        bind_e (len (lat d)) (\<lambda>n. for_each [0..<n - 1] (velocity_step gpx_dtstamps) ts)
      else Inr ts)"

text \<open>Lines 295 to 298: the constant-interval retiming.\<close>

definition interval_retiming ::
  "args \<Rightarrow> gpx_data \<Rightarrow> real list option \<Rightarrow> error + real list option" where
  "interval_retiming a d ts =
     (case intervaltime a of
        None \<Rightarrow> Inr ts
      | Some dt \<Rightarrow>
          if dt \<noteq> 0 \<and> dt > 0
          then bind_e (len (lat d)) (\<lambda>n. for_each [0..<n - 1] (interval_step dt) ts)
          else Inr ts)"

text \<open>Lines 281 to 298: the three adjustments of the timestamps of \<^verbatim>\<open>gpx_data\<close>, in place.\<close>

definition time_synthesis ::
  "(string \<Rightarrow> real option) \<Rightarrow> args \<Rightarrow> real list \<Rightarrow> gpx_data \<Rightarrow> error + gpx_data" where
  "time_synthesis parse_begintime a gpx_dist d =
     bind_e (begin_time_shift parse_begintime a d (tstamp d)) (\<lambda>ts1.
     bind_e (velocity_retiming a gpx_dist d ts1) (\<lambda>ts2.
     bind_e (interval_retiming a d ts2) (\<lambda>ts3.
       Inr (d\<lparr>tstamp := ts3\<rparr>))))"

text \<open>
  The lines of the console summary, before formatting. The dates are kept as timestamps.
\<close>

datatype console_line =
    Read_trackpoints nat string
  | Removed_duplicates int
  | Accumulated_distance real
  | Track_start_time real
  | Track_end_time real
  | Total_time real
  | Average_speed npfloat
  | Trackpoints_written nat string

definition endswith :: "string \<Rightarrow> string \<Rightarrow> bool" where
  "endswith s suffix =
     (length suffix \<le> length s \<and> drop (length s - length suffix) s = suffix)"

text \<open>
  The dictionaries of \<^verbatim>\<open>main\<close> live in a store of objects; an address is an index into
  it. A call that returns its argument yields the address it was given, a call that
  returns a new dictionary allocates.
\<close>

type_synonym heap = "gpx_data list"

definition returned_object :: "heap \<Rightarrow> nat \<Rightarrow> gpx_data returned \<Rightarrow> heap \<times> nat" where
  "returned_object h arg r =
     (case r of Argument \<Rightarrow> (h, arg) | Fresh v \<Rightarrow> (h @ [v], length h))"

type_synonym run = "console_line list \<times> world \<times> error option"

text \<open>An exception ends the run with the console lines and the file system so far.\<close>

definition try_e :: "console_line list \<Rightarrow> world \<Rightarrow> error + 'a \<Rightarrow> ('a \<Rightarrow> run) \<Rightarrow> run" where
  "try_e out w m k = (case m of Inl e \<Rightarrow> (out, w, Some e) | Inr x \<Rightarrow> k x)"

text \<open>\<^verbatim>\<open>gpx_data['tstamp'][-1]\<close>\<close>

definition getitem_last :: "real list option \<Rightarrow> error + real" where
  "getitem_last c =
     bind_e (len c) (\<lambda>k. if k = 0 then Inl IndexError else getitem c (k - 1))"

text \<open>Lines 301 to 320: the console summary and the call of \<^verbatim>\<open>gpx_write\<close>.\<close>

definition summarise_and_write ::
  "to_xml_fn \<Rightarrow> args \<Rightarrow> console_line list \<Rightarrow> world \<Rightarrow> string \<Rightarrow> gpx_data \<Rightarrow> gpx_data \<Rightarrow>
     real list \<Rightarrow> run" where
  "summarise_and_write to_xml a out w gpx_file gpx_data gpx_data_interp gpx_dist =
     try_e out w (getitem (tstamp gpx_data) 0) (\<lambda>starttime.
     try_e out w (getitem_last (tstamp gpx_data)) (\<lambda>endtime.
       let accumulateddistance = sum_list gpx_dist;
           totaltime = endtime - starttime;
           averagespeed = np_div accumulateddistance (Fin totaltime);
           out' = out @ [Accumulated_distance accumulateddistance,
                         Track_start_time starttime, Track_end_time endtime,
                         Total_time totaltime, Average_speed averagespeed];
           output_file = take (length gpx_file - 4) gpx_file @ ''_interpolated.gpx'';
           written = gpx_write to_xml w output_file gpx_data_interp gpx_dist (speed a)
       in
       case snd written of
         Some e \<Rightarrow> (out', fst written, Some e)
       | None \<Rightarrow>
           try_e out' (fst written) (len (lat gpx_data_interp)) (\<lambda>k.
             (out' @ [Trackpoints_written k output_file], fst written, None))))"

text \<open>
  The body of the loop of \<^verbatim>\<open>main\<close> for one file (lines 267 to 320), from the parsed
  content of the file on. It returns the console lines, the file system and the
  exception that ended the program, if any. The dictionary \<^verbatim>\<open>gpx_data\<close> sits at address
  0 of the store; lines 281 to 298 mutate it in place, and \<^verbatim>\<open>gpx_write\<close> receives whatever
  the address \<^verbatim>\<open>gpx_data_interp\<close> holds at that time.
\<close>

definition process_file ::
  "pchip_fn \<Rightarrow> add_fn \<Rightarrow> to_xml_fn \<Rightarrow> (string \<Rightarrow> real option) \<Rightarrow> args \<Rightarrow> world \<Rightarrow> string \<Rightarrow>
     gpx_point list list list \<Rightarrow> run" where
  "process_file pchip_interpolate fadd to_xml parse_begintime a w gpx_file tracks =
     (if endswith gpx_file ''_interpolated.gpx'' then ([], w, None)
      else
        let heap0 = [gpx_read tracks];
            gpx_data = 0
        in
        try_e [] w (len (lat (heap0 ! gpx_data))) (\<lambda>n.
        let out1 = [Read_trackpoints n gpx_file] in
        try_e out1 w (gpx_remove_duplicates_obj (heap0 ! gpx_data)) (\<lambda>r1.
        let heap1 = fst (returned_object heap0 gpx_data r1);
            gpx_data_nodup = snd (returned_object heap0 gpx_data r1)
        in
        try_e out1 w (len (lat (heap1 ! gpx_data_nodup))) (\<lambda>n_nodup.
        let out2 = out1 @ (if n_nodup \<noteq> n then [Removed_duplicates (int n - int n_nodup)]
                           else [])
        in
        try_e out2 w (gpx_interpolate_obj pchip_interpolate fadd (heap1 ! gpx_data_nodup)
                        (distance a) (num a)) (\<lambda>r2.
        let heap2 = fst (returned_object heap1 gpx_data_nodup r2);
            gpx_data_interp = snd (returned_object heap1 gpx_data_nodup r2)
        in
        try_e out2 w (gpx_calculate_distance (heap2 ! gpx_data) True) (\<lambda>gpx_dist.
        try_e out2 w (time_synthesis parse_begintime a gpx_dist (heap2 ! gpx_data))
          (\<lambda>gpx_data_retimed.
        let heap3 = heap2[gpx_data := gpx_data_retimed] in
        summarise_and_write to_xml a out2 w gpx_file (heap3 ! gpx_data)
          (heap3 ! gpx_data_interp) gpx_dist)))))))"

section \<open>Well-formed tracks and notions of the specification\<close>

text \<open>The number of points of a track.\<close>

definition npoints :: "gpx_data \<Rightarrow> nat" where
  "npoints d = (case lat d of None \<Rightarrow> 0 | Some xs \<Rightarrow> length xs)"

text \<open>Entry \<open>i\<close> of a channel that is known to be a list with more than \<open>i\<close> entries.\<close>

definition chan :: "real list option \<Rightarrow> nat \<Rightarrow> real" where
  "chan c i = the c ! i"

text \<open>
  The invariant of the data model: latitude and longitude are lists of the same length,
  and elevation and timestamp are either absent (\<^verbatim>\<open>None\<close> or \<^verbatim>\<open>[]\<close>) or of that
  length too.
\<close>

definition chan_ok :: "nat \<Rightarrow> real list option \<Rightarrow> bool" where
  "chan_ok n c = (case c of None \<Rightarrow> True | Some xs \<Rightarrow> xs = [] \<or> length xs = n)"

definition wf_track :: "gpx_data \<Rightarrow> bool" where
  "wf_track d =
     (case (lat d, lon d) of
        (Some la, Some lo) \<Rightarrow>
          length lo = length la \<and> chan_ok (length la) (ele d) \<and> chan_ok (length la) (tstamp d)
      | _ \<Rightarrow> False)"

text \<open>The value the loop of \<^verbatim>\<open>gpx_calculate_distance\<close> stores for the segment after point \<open>i\<close>.\<close>

definition seg_dist :: "gpx_data \<Rightarrow> bool \<Rightarrow> nat \<Rightarrow> real" where
  "seg_dist d use_ele i =
     (let d_latlon = dist_latlon (chan (lat d) i) (chan (lon d) i)
                       (chan (lat d) (i + 1)) (chan (lon d) (i + 1))
      in if truthy (ele d) \<and> use_ele
         then sqrt (d_latlon\<^sup>2 + (chan (ele d) (i + 1) - chan (ele d) i)\<^sup>2)
         else d_latlon)"

text \<open>
  The great-circle distance as the specification's glossary has it: the length of the
  shortest path on the sphere, that is the radius times the angle between the unit
  vectors of the two points.
\<close>

definition unit_vec :: "real \<Rightarrow> real \<Rightarrow> real \<times> real \<times> real" where
  "unit_vec la lo =
     (cos (radians la) * cos (radians lo), cos (radians la) * sin (radians lo), sin (radians la))"

definition dot :: "real \<times> real \<times> real \<Rightarrow> real \<times> real \<times> real \<Rightarrow> real" where
  "dot u v = (case (u, v) of ((a, b, c), (x, y, z)) \<Rightarrow> a * x + b * y + c * z)"

definition great_circle :: "real \<Rightarrow> real \<Rightarrow> real \<Rightarrow> real \<Rightarrow> real" where
  "great_circle la1 lo1 la2 lo2 =
     EARTH_RADIUS * arccos (dot (unit_vec la1 lo1) (unit_vec la2 lo2))"

text \<open>
  The indices \<^verbatim>\<open>gpx_remove_duplicates\<close> keeps: index 0, and every index whose point lies
  at a non-zero surface distance from its predecessor.
\<close>

definition retained :: "gpx_data \<Rightarrow> nat list" where
  "retained d = 0 # filter (\<lambda>i. 0 < i \<and> seg_dist d False (i - 1) \<noteq> 0) [0..<npoints d]"

text \<open>No two consecutive points of the track lie at surface distance zero.\<close>

definition no_dups :: "gpx_data \<Rightarrow> bool" where
  "no_dups d = (\<forall>j\<in>set [0..<npoints d - 1]. seg_dist d False j \<noteq> 0)"

text \<open>A channel re-indexed by a list of indices; an absent channel stays absent.\<close>

definition select :: "real list option \<Rightarrow> nat list \<Rightarrow> real list option" where
  "select c idx = (if truthy c then Some (map (chan c) idx) else None)"

definition reindexed :: "real list option \<Rightarrow> real list option \<Rightarrow> nat list \<Rightarrow> bool" where
  "reindexed c c' idx \<longleftrightarrow>
     truthy c' = truthy c \<and> (truthy c \<longrightarrow> c' = Some (map (chan c) idx))"

text \<open>
  Modelled from the spec: the contract of \<^verbatim>\<open>pchip_interpolate\<close>, a function of SciPy
  that is not part of the sources. Section 4.3 of the specification: given at least two
  strictly increasing knots, rows of known values of the length of the knots, and query
  points within the range of the knots, the interpolator returns one row per row of
  known values and one value per query point.
\<close>

definition pchip_shape_contract :: "pchip_fn \<Rightarrow> bool" where
  "pchip_shape_contract f \<longleftrightarrow>
     (\<forall>xi yi x.
        2 \<le> length xi \<and> sorted_wrt (<) xi \<and> (\<forall>r\<in>set yi. length r = length xi) \<and>
        (\<forall>q\<in>set x. hd xi \<le> q \<and> q \<le> last xi) \<longrightarrow>
        (\<exists>y. f xi yi x = Inr y \<and> length y = length yi \<and> (\<forall>r\<in>set y. length r = length x)))"

text \<open>
  The knots of the interpolation: the array \<^verbatim>\<open>xi\<close> of lines 77 to 80 of
  \<^verbatim>\<open>gpx_interpolate\<close>, the running sum of the distances of the track without its
  duplicates.
\<close>

definition arc_length_axis :: "add_fn \<Rightarrow> gpx_data \<Rightarrow> error + real list" where
  "arc_length_axis fadd d =
     bind_e (gpx_remove_duplicates d) (\<lambda>gpx_data'.
     bind_e (gpx_calculate_distance gpx_data' True) (\<lambda>gpx_dist'.
       Inr (cumsum fadd gpx_dist')))"

text \<open>
  A valid track for the interpolation: well-formed, and its knots are what the
  interpolator requires (Section 4.3 of the specification), at least two and strictly
  increasing. Knots that are fewer or that do not increase make the interpolator raise
  (the \<^verbatim>\<open>InputShapeError\<close> of Section 7). The condition is on the knots as the script
  computes them with its addition: a track with a step that the running sum absorbs is
  not valid for that addition, and neither is a track whose points all coincide.
\<close>

definition valid_track :: "add_fn \<Rightarrow> gpx_data \<Rightarrow> bool" where
  "valid_track fadd d \<longleftrightarrow>
     wf_track d \<and>
     (case arc_length_axis fadd d of
        Inl e \<Rightarrow> False
      | Inr xi \<Rightarrow> 2 \<le> length xi \<and> sorted_wrt (<) xi)"

text \<open>The channel is present and has \<open>k\<close> entries.\<close>

definition channel_has :: "real list option \<Rightarrow> nat \<Rightarrow> bool" where
  "channel_has c k = (case c of None \<Rightarrow> False | Some xs \<Rightarrow> length xs = k)"

text \<open>
  The result \<open>r\<close> of interpolating \<open>d\<close> has \<open>k\<close> points in every channel that is present
  in \<open>d\<close>, and the channels absent from \<open>d\<close> are absent from \<open>r\<close>.
\<close>

definition has_points :: "gpx_data \<Rightarrow> gpx_data \<Rightarrow> nat \<Rightarrow> bool" where
  "has_points r d k \<longleftrightarrow>
     channel_has (lat r) k \<and> channel_has (lon r) k \<and>
     (if truthy (ele d) then channel_has (ele r) k else ele r = None) \<and>
     (if truthy (tstamp d) then channel_has (tstamp r) k else tstamp r = None)"

text \<open>All four channels are lists of length \<open>n\<close>, as in a track read by \<^verbatim>\<open>gpx_read\<close>.\<close>

definition all_channels :: "gpx_data \<Rightarrow> nat \<Rightarrow> bool" where
  "all_channels g n \<longleftrightarrow>
     channel_has (lat g) n \<and> channel_has (lon g) n \<and> channel_has (ele g) n \<and>
     channel_has (tstamp g) n"

section \<open>Example tracks\<close>

text \<open>
  Three points on the equator: the first two coincide, the third lies half way round
  the globe. The timestamps go back at the last step.
\<close>

definition track_equator :: gpx_data where
  "track_equator =
     \<lparr>lat = Some [0, 0, 0], lon = Some [0, 0, 180], ele = Some [0, 0, 0],
      tstamp = Some [0, 10, 5], tzinfo = Some UTC\<rparr>"

text \<open>Two points on the equator, half the globe and ten seconds apart, without elevation.\<close>

definition track_half :: gpx_data where
  "track_half =
     \<lparr>lat = Some [0, 0], lon = Some [0, 180], ele = None,
      tstamp = Some [0, 10], tzinfo = None\<rparr>"

text \<open>The same two points without timestamps.\<close>

definition track_untimed :: gpx_data where
  "track_untimed =
     \<lparr>lat = Some [0, 0], lon = Some [0, 180], ele = None, tstamp = None, tzinfo = None\<rparr>"

text \<open>The track of a GPX file without track points, as \<^verbatim>\<open>gpx_read\<close> returns it.\<close>

definition track_empty :: gpx_data where
  "track_empty =
     \<lparr>lat = Some [], lon = Some [], ele = Some [], tstamp = Some [], tzinfo = None\<rparr>"

text \<open>A serialisation, a file system and command-line arguments for the examples.\<close>

definition to_xml_example :: to_xml_fn where
  "to_xml_example version points = version @ replicate (length points) (CHR ''p'')"

definition world_empty :: world where
  "world_empty = \<lparr>files = (\<lambda>_. None), unwritable = (\<lambda>_. False)\<rparr>"

text \<open>The defaults of the argument parser.\<close>

definition args_default :: args where
  "args_default =
     \<lparr>distance = 1, num = None, intervaltime = None, velocity = 1, speed = False,
      begintime = None\<rparr>"

text \<open>What \<^verbatim>\<open>gpx_remove_duplicates\<close> makes of the empty track.\<close>

definition removed_channels :: gpx_data where
  "removed_channels = \<lparr>lat = None, lon = None, ele = None, tstamp = None, tzinfo = None\<rparr>"

text \<open>
  A piecewise linear interpolant. It stands in for the SciPy function in the examples: it
  meets the contract \<open>pchip_shape_contract\<close>.
\<close>

fun interp1 :: "(real \<times> real) list \<Rightarrow> real \<Rightarrow> real" where
  "interp1 [] q = 0"
| "interp1 [(x0, y0)] q = y0"
| "interp1 ((x0, y0) # (x1, y1) # ps) q =
     (if q \<le> x1 then y0 + (q - x0) * (y1 - y0) / (x1 - x0) else interp1 ((x1, y1) # ps) q)"

definition linear_interpolate :: pchip_fn where
  "linear_interpolate xi yi x =
     (if length xi < 2 \<or> \<not> sorted_wrt (<) xi \<or> (\<exists>r\<in>set yi. length r \<noteq> length xi)
      then Inl ValueError
      else Inr (map (\<lambda>r. map (interp1 (zip xi r)) x) yi))"

text \<open>
  A parsed GPX file with the two points of \<open>track_half\<close>, without elevation and time; the
  arguments \<^verbatim>\<open>-n 3\<close>; and the same with velocity, interval and begin time set.
\<close>

definition tracks_two_points :: "gpx_point list list list" where
  "tracks_two_points =
     [ [ [\<lparr>latitude = 0, longitude = 0, elevation = None, time = None\<rparr>,
          \<lparr>latitude = 0, longitude = 180, elevation = None, time = None\<rparr>] ] ]"

definition args_three_points :: args where
  "args_three_points = args_default\<lparr>num := Some 3\<rparr>"

definition args_retimed :: args where
  "args_retimed =
     args_three_points\<lparr>velocity := 2, intervaltime := Some 5,
       begintime := Some ''20240201-120000Z''\<rparr>"


section \<open>Basic facts\<close>

lemma bind_e_Inr [simp]: "bind_e (Inr x) f = f x"
  by (simp add: bind_e_def)

lemma bind_e_Inl [simp]: "bind_e (Inl e) f = Inl e"
  by (simp add: bind_e_def)

lemma bind_e_eq_Inr: "bind_e m k = Inr r \<longleftrightarrow> (\<exists>x. m = Inr x \<and> k x = Inr r)"
  by (cases m) simp_all

lemma getitem_Some [simp]: "i < length xs \<Longrightarrow> getitem (Some xs) i = Inr (xs ! i)"
  by (simp add: getitem_def)

lemma wf_trackE:
  assumes "wf_track d"
  obtains la lo where "lat d = Some la" "lon d = Some lo" "length lo = length la"
    "chan_ok (length la) (ele d)" "chan_ok (length la) (tstamp d)" "npoints d = length la"
  using assms by (auto simp: wf_track_def npoints_def split: option.splits)

lemma chan_ok_truthy:
  "chan_ok n c \<Longrightarrow> truthy c \<Longrightarrow> \<exists>xs. c = Some xs \<and> length xs = n \<and> 0 < n"
  by (auto simp: chan_ok_def truthy_def split: option.splits)

lemma dist_step_wf:
  assumes "wf_track d" "Suc i < npoints d"
  shows "dist_step d use_ele i = Inr (seg_dist d use_ele i)"
proof -
  from assms(1) obtain la lo where c: "lat d = Some la" "lon d = Some lo"
    "length lo = length la" "chan_ok (length la) (ele d)" "npoints d = length la"
    by (rule wf_trackE)
  consider (a) "truthy (ele d)" "use_ele" | (b) "\<not> truthy (ele d)" | (c) "\<not> use_ele"
    by blast
  then show ?thesis
  proof cases
    case a
    with c(4) obtain es where e: "ele d = Some es" "length es = length la"
      using chan_ok_truthy by blast
    have t: "truthy (Some es)" using a e by simp
    show ?thesis using assms(2)
      by (simp add: dist_step_def seg_dist_def chan_def Let_def c e t a)
  next
    case b
    show ?thesis using assms(2)
      by (simp add: dist_step_def seg_dist_def chan_def Let_def c b)
  next
    case c': c
    show ?thesis using assms(2)
      by (simp add: dist_step_def seg_dist_def chan_def Let_def c c')
  qed
qed

lemma dist_loop_result:
  assumes "\<forall>i\<in>set is. dist_step d u i = Inr (f i)" "distinct is" "\<forall>i\<in>set is. Suc i < length g"
  shows "\<exists>g'. dist_loop d u is g = Inr g' \<and> length g' = length g \<and>
           (\<forall>j<length g. g' ! j = (if 0 < j \<and> j - 1 \<in> set is then f (j - 1) else g ! j))"
  using assms
proof (induction "is" arbitrary: g)
  case Nil
  then show ?case by simp
next
  case (Cons i "is")
  let ?g1 = "g[i + 1 := f i]"
  from Cons.prems have s: "dist_step d u i = Inr (f i)" by simp
  have "\<exists>g'. dist_loop d u is ?g1 = Inr g' \<and> length g' = length ?g1 \<and>
           (\<forall>j<length ?g1. g' ! j = (if 0 < j \<and> j - 1 \<in> set is then f (j - 1) else ?g1 ! j))"
    using Cons.prems by (intro Cons.IH) auto
  then obtain g' where g': "dist_loop d u is ?g1 = Inr g'" "length g' = length g"
    "\<forall>j<length g. g' ! j = (if 0 < j \<and> j - 1 \<in> set is then f (j - 1) else ?g1 ! j)"
    by auto
  have "\<forall>j<length g. g' ! j = (if 0 < j \<and> j - 1 \<in> set (i # is) then f (j - 1) else g ! j)"
  proof (intro allI impI)
    fix j assume j: "j < length g"
    show "g' ! j = (if 0 < j \<and> j - 1 \<in> set (i # is) then f (j - 1) else g ! j)"
    proof (cases "j = i + 1")
      case True
      then have "j - 1 \<notin> set is" using Cons.prems(2) by simp
      then show ?thesis using g'(3) j True by simp
    next
      case False
      then have "?g1 ! j = g ! j" by simp
      moreover have "0 < j \<and> j - 1 \<in> set (i # is) \<longleftrightarrow> 0 < j \<and> j - 1 \<in> set is"
        using False by auto
      ultimately show ?thesis using g'(3) j by simp
    qed
  qed
  then show ?case using s g' by simp
qed

lemma gpx_calculate_distance_wf:
  assumes "wf_track d"
  shows "\<exists>ds. gpx_calculate_distance d use_ele = Inr ds \<and> length ds = npoints d \<and>
           (\<forall>j<npoints d. ds ! j = (if 0 < j then seg_dist d use_ele (j - 1) else 0))"
proof -
  from assms obtain la where c: "lat d = Some la" "npoints d = length la"
    by (rule wf_trackE)
  let ?n = "length la"
  have "\<exists>g'. dist_loop d use_ele [0..<?n - 1] (replicate ?n 0) = Inr g' \<and>
          length g' = length (replicate ?n (0::real)) \<and>
          (\<forall>j<length (replicate ?n (0::real)). g' ! j =
             (if 0 < j \<and> j - 1 \<in> set [0..<?n - 1] then seg_dist d use_ele (j - 1)
              else replicate ?n 0 ! j))"
    using assms c by (intro dist_loop_result) (auto simp: dist_step_wf)
  then obtain g' where g': "dist_loop d use_ele [0..<?n - 1] (replicate ?n 0) = Inr g'"
    "length g' = ?n"
    "\<forall>j<?n. g' ! j = (if 0 < j \<and> j - 1 \<in> set [0..<?n - 1] then seg_dist d use_ele (j - 1)
              else replicate ?n 0 ! j)"
    by auto
  have "\<forall>j<?n. g' ! j = (if 0 < j then seg_dist d use_ele (j - 1) else 0)"
  proof (intro allI impI)
    fix j assume "j < ?n"
    then show "g' ! j = (if 0 < j then seg_dist d use_ele (j - 1) else 0)"
      using g'(3) by (cases j) auto
  qed
  then show ?thesis using g' c by (simp add: gpx_calculate_distance_def len_def)
qed


section \<open>The haversine formula\<close>

lemma sin_half_sq: "(sin (x / 2))\<^sup>2 = (1 - cos x) / (2::real)"
  using cos_double_sin [of "x / 2"] by simp

lemma cos_sin_sq: "cos x * cos x + sin x * sin x = (1::real)"
  using sin_cos_squared_add2 [of x] by (simp add: power2_eq_square)

lemma hav_arg_expand:
  "4 * hav_arg l1 o1 l2 o2 =
      2 - 2 * (cos l2 * cos l1 + sin l2 * sin l1)
        + 2 * cos l1 * cos l2 * (1 - (cos o2 * cos o1 + sin o2 * sin o1))"
proof -
  have "4 * hav_arg l1 o1 l2 o2 =
      4 * (sin ((l2 - l1) / 2))\<^sup>2 + cos l1 * cos l2 * (4 * (sin ((o2 - o1) / 2))\<^sup>2)"
    by (simp add: hav_arg_def Let_def algebra_simps)
  also have "\<dots> = (2 - 2 * cos (l2 - l1)) + cos l1 * cos l2 * (2 - 2 * cos (o2 - o1))"
    by (simp add: sin_half_sq field_simps)
  finally show ?thesis by (simp add: cos_diff algebra_simps)
qed

lemma chord_alg:
  fixes a1 b1 a2 b2 c1 d1 c2 d2 :: real
  assumes "a1 * a1 + b1 * b1 = 1" "a2 * a2 + b2 * b2 = 1"
    "c1 * c1 + d1 * d1 = 1" "c2 * c2 + d2 * d2 = 1"
  shows "(a1 * c1 - a2 * c2)\<^sup>2 + (a1 * d1 - a2 * d2)\<^sup>2 + (b1 - b2)\<^sup>2 =
          2 - 2 * (a2 * a1 + b2 * b1) + 2 * a1 * a2 * (1 - (c2 * c1 + d2 * d1))"
  using assms by algebra

lemma antichord_alg:
  fixes a1 b1 a2 b2 c1 d1 c2 d2 :: real
  assumes "a1 * a1 + b1 * b1 = 1" "a2 * a2 + b2 * b2 = 1"
    "c1 * c1 + d1 * d1 = 1" "c2 * c2 + d2 * d2 = 1"
  shows "(a1 * c1 + a2 * c2)\<^sup>2 + (a1 * d1 + a2 * d2)\<^sup>2 + (b1 + b2)\<^sup>2 =
          4 - (2 - 2 * (a2 * a1 + b2 * b1) + 2 * a1 * a2 * (1 - (c2 * c1 + d2 * d1)))"
  using assms by algebra

lemma dot_alg:
  fixes a1 b1 a2 b2 c1 d1 c2 d2 :: real
  shows "2 * (a1 * c1 * (a2 * c2) + a1 * d1 * (a2 * d2) + b1 * b2) =
          2 - (2 - 2 * (a2 * a1 + b2 * b1) + 2 * a1 * a2 * (1 - (c2 * c1 + d2 * d1)))"
  by (simp add: algebra_simps)

lemma hav_arg_chord:
  "4 * hav_arg l1 o1 l2 o2 =
     (cos l1 * cos o1 - cos l2 * cos o2)\<^sup>2 + (cos l1 * sin o1 - cos l2 * sin o2)\<^sup>2
       + (sin l1 - sin l2)\<^sup>2"
  unfolding hav_arg_expand by (rule chord_alg [symmetric]) (rule cos_sin_sq)+

lemma hav_arg_antichord:
  "4 - 4 * hav_arg l1 o1 l2 o2 =
     (cos l1 * cos o1 + cos l2 * cos o2)\<^sup>2 + (cos l1 * sin o1 + cos l2 * sin o2)\<^sup>2
       + (sin l1 + sin l2)\<^sup>2"
  unfolding hav_arg_expand by (rule antichord_alg [symmetric]) (rule cos_sin_sq)+

lemma hav_arg_dot:
  "dot (unit_vec la1 lo1) (unit_vec la2 lo2) =
     1 - 2 * hav_arg (radians la1) (radians lo1) (radians la2) (radians lo2)"
proof -
  have "2 * dot (unit_vec la1 lo1) (unit_vec la2 lo2) =
     2 - 4 * hav_arg (radians la1) (radians lo1) (radians la2) (radians lo2)"
    unfolding hav_arg_expand dot_def unit_vec_def prod.case
    by (rule dot_alg)
  then show ?thesis by simp
qed

lemma hav_arg_nonneg: "0 \<le> hav_arg l1 o1 l2 o2"
proof -
  have "0 \<le> 4 * hav_arg l1 o1 l2 o2" unfolding hav_arg_chord by simp
  then show ?thesis by simp
qed


lemma hav_arg_le_1: "hav_arg l1 o1 l2 o2 \<le> 1"
proof -
  have "0 \<le> 4 - 4 * hav_arg l1 o1 l2 o2" unfolding hav_arg_antichord by simp
  then show ?thesis by simp
qed

lemma hav_arg_bounds: "0 \<le> hav_arg l1 o1 l2 o2 \<and> hav_arg l1 o1 l2 o2 \<le> 1"
  by (simp add: hav_arg_nonneg hav_arg_le_1)

lemma dist_latlon_nonneg: "0 \<le> dist_latlon la1 lo1 la2 lo2"
proof -
  let ?a = "hav_arg (radians la1) (radians lo1) (radians la2) (radians lo2)"
  have "0 \<le> sqrt ?a" "sqrt ?a \<le> 1"
    using hav_arg_nonneg [of "radians la1"] hav_arg_le_1 [of "radians la1"] by simp_all
  then have "0 \<le> arcsin (sqrt ?a)" by (intro arcsin_nonneg) simp
  then show ?thesis by (simp add: dist_latlon_def EARTH_RADIUS_def Let_def)
qed

lemma dist_latlon_eq_0_iff:
  "dist_latlon la1 lo1 la2 lo2 = 0 \<longleftrightarrow>
     hav_arg (radians la1) (radians lo1) (radians la2) (radians lo2) = 0"
proof -
  let ?a = "hav_arg (radians la1) (radians lo1) (radians la2) (radians lo2)"
  have b: "\<bar>sqrt ?a\<bar> \<le> 1"
    using hav_arg_nonneg [of "radians la1"] hav_arg_le_1 [of "radians la1"] by simp
  have "arcsin (sqrt ?a) = arcsin 0 \<longleftrightarrow> sqrt ?a = 0"
    using b by (intro arcsin_eq_iff) simp_all
  then show ?thesis by (simp add: dist_latlon_def EARTH_RADIUS_def Let_def)
qed

lemma dist_latlon_great_circle: "dist_latlon la1 lo1 la2 lo2 = great_circle la1 lo1 la2 lo2"
proof -
  let ?a = "hav_arg (radians la1) (radians lo1) (radians la2) (radians lo2)"
  let ?s = "sqrt ?a"
  have a: "0 \<le> ?a" "?a \<le> 1" by (rule hav_arg_nonneg, rule hav_arg_le_1)
  have s: "0 \<le> ?s" "?s \<le> 1" using a by simp_all
  have lo: "0 \<le> 2 * arcsin ?s" using s by (simp add: arcsin_nonneg)
  have hi: "2 * arcsin ?s \<le> pi" using arcsin_ubound [of ?s] s by simp
  have "sin (arcsin ?s) = ?s" using s by (intro sin_arcsin) linarith+
  moreover have "?s\<^sup>2 = ?a" using a by simp
  ultimately have "1 - 2 * (sin (arcsin ?s))\<^sup>2 = 1 - 2 * ?a" by simp
  then have "cos (2 * arcsin ?s) = 1 - 2 * ?a" by (simp only: cos_double_sin)
  then have "arccos (1 - 2 * ?a) = arccos (cos (2 * arcsin ?s))" by (simp only:)
  also have "\<dots> = 2 * arcsin ?s" by (rule arccos_cos [OF lo hi])
  finally show ?thesis by (simp add: dist_latlon_def great_circle_def hav_arg_dot Let_def)
qed

lemma seg_dist_nonneg: "0 \<le> seg_dist d use_ele i"
  by (simp add: seg_dist_def Let_def dist_latlon_nonneg)

lemma cumsum_from_ge:
  assumes "\<forall>a x. 0 \<le> x \<longrightarrow> a \<le> fadd a x"
  shows "\<forall>x\<in>set xs. 0 \<le> x \<Longrightarrow> \<forall>y\<in>set (cumsum_from fadd acc xs). acc \<le> y"
proof (induction xs arbitrary: acc)
  case Nil
  then show ?case by simp
next
  case (Cons x xs)
  from Cons.prems have "0 \<le> x" by simp
  with assms have a: "acc \<le> fadd acc x" by simp
  from Cons have "\<forall>y\<in>set (cumsum_from fadd (fadd acc x) xs). fadd acc x \<le> y" by simp
  with a show ?case by fastforce
qed

lemma sorted_cumsum_from:
  assumes "\<forall>a x. 0 \<le> x \<longrightarrow> a \<le> fadd a x"
  shows "\<forall>x\<in>set xs. 0 \<le> x \<Longrightarrow> sorted (cumsum_from fadd acc xs)"
proof (induction xs arbitrary: acc)
  case Nil
  then show ?case by simp
next
  case (Cons x xs)
  then show ?case using cumsum_from_ge [OF assms, of xs "fadd acc x"] by simp
qed

lemma sorted_cumsum:
  assumes "\<forall>a x. 0 \<le> x \<longrightarrow> a \<le> fadd a x" "\<forall>x\<in>set xs. 0 \<le> x"
  shows "sorted (cumsum fadd xs)"
proof (cases xs)
  case Nil
  then show ?thesis by (simp add: cumsum_def)
next
  case (Cons x xs')
  with assms(2) have nn: "\<forall>x\<in>set xs'. 0 \<le> x" by simp
  from cumsum_from_ge [OF assms(1) nn, of x] sorted_cumsum_from [OF assms(1) nn, of x] Cons
  show ?thesis by (simp add: cumsum_def)
qed

lemma length_cumsum_from [simp]: "length (cumsum_from fadd acc xs) = length xs"
  by (induction xs arbitrary: acc) simp_all

lemma length_cumsum [simp]: "length (cumsum fadd xs) = length xs"
  by (cases xs) (simp_all add: cumsum_def)

section \<open>Claims about gpx\_calculate\_distance\<close>

text \<open>
  Claim C1. For every well-formed track, \<^verbatim>\<open>gpx_calculate_distance(track, use_ele)\<close>
  returns a sequence of the length of the track. Its element 0 is 0, and its element
  \<open>i \<ge> 1\<close> is the great-circle distance between point \<open>i - 1\<close> and point \<open>i\<close>, combined
  with the difference of the elevations as \<open>sqrt (d_latlon\<^sup>2 + d_ele\<^sup>2)\<close> when
  \<^verbatim>\<open>use_ele\<close> is true and the elevation channel is present, and the plain great-circle
  distance otherwise.
\<close>

theorem distance_sequence:
  assumes "wf_track d"
  shows "\<exists>ds. gpx_calculate_distance d use_ele = Inr ds \<and> length ds = npoints d \<and>
           (0 < npoints d \<longrightarrow> ds ! 0 = 0) \<and>
           (\<forall>i. 1 \<le> i \<and> i < npoints d \<longrightarrow>
              ds ! i =
                (let d_latlon = great_circle (chan (lat d) (i - 1)) (chan (lon d) (i - 1))
                                  (chan (lat d) i) (chan (lon d) i)
                 in if use_ele \<and> truthy (ele d)
                    then sqrt (d_latlon\<^sup>2 + (chan (ele d) i - chan (ele d) (i - 1))\<^sup>2)
                    else d_latlon))"
proof -
  from gpx_calculate_distance_wf [OF assms, of use_ele] obtain ds where
    ds: "gpx_calculate_distance d use_ele = Inr ds" "length ds = npoints d"
      "\<forall>j<npoints d. ds ! j = (if 0 < j then seg_dist d use_ele (j - 1) else 0)"
    by blast
  have "ds ! i =
      (let d_latlon = great_circle (chan (lat d) (i - 1)) (chan (lon d) (i - 1))
                                  (chan (lat d) i) (chan (lon d) i)
       in if use_ele \<and> truthy (ele d)
          then sqrt (d_latlon\<^sup>2 + (chan (ele d) i - chan (ele d) (i - 1))\<^sup>2)
          else d_latlon)" if "1 \<le> i \<and> i < npoints d" for i
  proof -
    from that have "ds ! i = seg_dist d use_ele (i - 1)" using ds(3) by simp
    moreover have "i - 1 + 1 = i" using that by simp
    ultimately show ?thesis
      by (simp add: seg_dist_def dist_latlon_great_circle Let_def conj_commute)
  qed
  then show ?thesis using ds by auto
qed

lemma wf_track_equator: "wf_track track_equator"
  by (simp add: wf_track_def track_equator_def chan_ok_def)

lemma great_circle_equator_half: "great_circle 0 0 0 180 = 6371000 * pi"
  by (simp add: great_circle_def unit_vec_def dot_def radians_def EARTH_RADIUS_def)

lemma great_circle_same: "great_circle la lo la lo = 0"
  using dist_latlon_great_circle [of la lo la lo]
  by (simp add: dist_latlon_def hav_arg_def)

lemma npoints_track_equator: "npoints track_equator = 3"
  by (simp add: npoints_def track_equator_def)

lemma chan_track_equator: "chan (lat track_equator) 0 = 0" "chan (lat track_equator) 1 = 0"
    "chan (lat track_equator) 2 = 0" "chan (lon track_equator) 0 = 0"
    "chan (lon track_equator) 1 = 0" "chan (lon track_equator) 2 = 180"
    "chan (ele track_equator) 0 = 0" "chan (ele track_equator) 1 = 0"
    "chan (ele track_equator) 2 = 0" "truthy (ele track_equator)"
    "chan (lat track_equator) (Suc 0) = 0" "chan (lon track_equator) (Suc 0) = 0"
    "chan (ele track_equator) (Suc 0) = 0"
    by (simp_all add: track_equator_def chan_def truthy_def)

theorem distance_sequence_witness:
  "wf_track track_equator \<and> (\<exists>ds. gpx_calculate_distance track_equator True = Inr ds \<and> length ds = 3 \<and>
      ds ! 0 = 0 \<and> ds ! 1 = 0 \<and> ds ! 2 = 6371000 * pi)"
proof -
  from distance_sequence [OF wf_track_equator, of True] obtain ds where
    ds: "gpx_calculate_distance track_equator True = Inr ds"
      "length ds = npoints track_equator"
      "0 < npoints track_equator \<longrightarrow> ds ! 0 = 0"
    and el: "\<forall>i. 1 \<le> i \<and> i < npoints track_equator \<longrightarrow>
              ds ! i =
                (let d_latlon = great_circle (chan (lat track_equator) (i - 1))
                                  (chan (lon track_equator) (i - 1))
                                  (chan (lat track_equator) i) (chan (lon track_equator) i)
                 in if True \<and> truthy (ele track_equator)
                    then sqrt (d_latlon\<^sup>2 +
                      (chan (ele track_equator) i - chan (ele track_equator) (i - 1))\<^sup>2)
                    else d_latlon)"
    by (elim exE conjE)
  have "1 \<le> (1::nat) \<and> 1 < npoints track_equator" by (simp add: npoints_track_equator)
  from el [rule_format, OF this] have "ds ! 1 = 0"
    by (simp add: chan_track_equator great_circle_same)
  moreover have "1 \<le> (2::nat) \<and> 2 < npoints track_equator" by (simp add: npoints_track_equator)
  from el [rule_format, OF this] have "ds ! 2 = 6371000 * pi"
    by (simp add: chan_track_equator great_circle_equator_half)
  moreover have "ds ! 0 = 0" "length ds = 3" using ds(2,3) by (simp_all add: npoints_track_equator)
  ultimately show ?thesis using ds(1) wf_track_equator by blast
qed

text \<open>
  Claim C2. For every well-formed track, also one with duplicate consecutive points,
  every element of the sequence returned by \<^verbatim>\<open>gpx_calculate_distance\<close> is
  non-negative; hence the cumulative sum of the sequence is non-decreasing, and its first
  element is 0. The cumulative sum is formed with any addition that does not decrease a
  sum when a non-negative term is added, as the rounded addition of doubles and the
  exact addition do.
\<close>

theorem distance_nonneg_cumsum_monotone:
  assumes "wf_track d" and "\<forall>a x. 0 \<le> x \<longrightarrow> a \<le> fadd a x"
  shows "\<exists>ds. gpx_calculate_distance d use_ele = Inr ds \<and> (\<forall>x\<in>set ds. 0 \<le> x) \<and>
           sorted (cumsum fadd ds) \<and> (0 < npoints d \<longrightarrow> cumsum fadd ds ! 0 = 0)"
proof -
  from gpx_calculate_distance_wf [OF assms(1), of use_ele] obtain ds where
    ds: "gpx_calculate_distance d use_ele = Inr ds" "length ds = npoints d"
      "\<forall>j<npoints d. ds ! j = (if 0 < j then seg_dist d use_ele (j - 1) else 0)"
    by blast
  have nn: "\<forall>x\<in>set ds. 0 \<le> x"
  proof
    fix x assume "x \<in> set ds"
    then obtain j where "j < length ds" "x = ds ! j" by (auto simp: in_set_conv_nth)
    then show "0 \<le> x" using ds(2,3) by (simp add: seg_dist_nonneg)
  qed
  have "cumsum fadd ds ! 0 = 0" if "0 < npoints d"
  proof -
    from that ds(2) obtain x xs where c: "ds = x # xs" by (cases ds) auto
    with ds(3) that have "x = 0" by force
    with c show ?thesis by (simp add: cumsum_def)
  qed
  with nn ds(1) sorted_cumsum [OF assms(2) nn] show ?thesis by auto
qed

theorem distance_nonneg_cumsum_monotone_witness:
  "wf_track track_equator \<and>
   (\<exists>ds. gpx_calculate_distance track_equator True = Inr ds \<and> (\<forall>x\<in>set ds. 0 \<le> x) \<and>
           sorted (cumsum (+) ds) \<and> (0 < npoints track_equator \<longrightarrow> cumsum (+) ds ! 0 = 0))"
proof -
  have "\<forall>a x::real. 0 \<le> x \<longrightarrow> a \<le> a + x" by simp
  from distance_nonneg_cumsum_monotone [OF wf_track_equator this, of True] wf_track_equator
  show ?thesis by (intro conjI)
qed

section \<open>Claims about gpx\_calculate\_speed\<close>

lemma np_diff_prepend_length [simp]: "length (np_diff_prepend a p) = length a"
  by (simp add: np_diff_prepend_def Let_def)

lemma np_diff_prepend_nth:
  "i < length a \<Longrightarrow>
     np_diff_prepend a p ! i = (if i = 0 then a ! 0 - p else a ! i - a ! (i - 1))"
  by (cases i) (simp_all add: np_diff_prepend_def Let_def)

lemma nan_to_num_masked:
  "nan_to_num (np_div x (if t < EPS then NaN else Fin t)) = (if t < EPS then 0 else x / t)"
  by (auto simp: EPS_def)

lemma gpx_calculate_speed_wf:
  assumes "wf_track d" "truthy (tstamp d)"
  shows "\<exists>ds ts. gpx_calculate_distance d True = Inr ds \<and> length ds = npoints d \<and>
           tstamp d = Some ts \<and> length ts = npoints d \<and> 0 < npoints d \<and>
           gpx_calculate_speed d =
             Inr (map (\<lambda>i. if np_diff_prepend ts (ts ! 0) ! i < EPS then 0
                            else ds ! i / np_diff_prepend ts (ts ! 0) ! i) [0..<npoints d])"
proof -
  from assms(1) obtain la where c: "lat d = Some la" "chan_ok (length la) (tstamp d)"
    "npoints d = length la"
    by (rule wf_trackE)
  from chan_ok_truthy [OF c(2) assms(2)] obtain ts where
    ts: "tstamp d = Some ts" "length ts = length la" "0 < length la"
    by (elim exE conjE)
  from gpx_calculate_distance_wf [OF assms(1), of True] obtain ds where
    ds: "gpx_calculate_distance d True = Inr ds" "length ds = npoints d"
    by (elim exE conjE)
  let ?m = "mask_below_eps (np_diff_prepend ts (ts ! 0))"
  have len: "length ds = length ?m" using ds(2) ts(2) c(3) by (simp add: mask_below_eps_def)
  have "map nan_to_num (map (\<lambda>(x, y). np_div x y) (zip ds ?m)) =
        map (\<lambda>i. if np_diff_prepend ts (ts ! 0) ! i < EPS then 0
                            else ds ! i / np_diff_prepend ts (ts ! 0) ! i) [0..<npoints d]"
    using len ds(2)
    by (intro nth_equalityI) (simp_all add: mask_below_eps_def Let_def nan_to_num_masked)
  then have "gpx_calculate_speed d =
             Inr (map (\<lambda>i. if np_diff_prepend ts (ts ! 0) ! i < EPS then 0
                            else ds ! i / np_diff_prepend ts (ts ! 0) ! i) [0..<npoints d])"
    using ts(2,3) len by (simp add: gpx_calculate_speed_def ds(1) ts(1) np_divide_def Let_def)
  then show ?thesis using ds ts c(3) by simp
qed

text \<open>
  Claim C6. For every well-formed track with a timestamp channel,
  \<^verbatim>\<open>gpx_calculate_speed\<close> returns a sequence of the length of the track whose element 0
  is 0. Where the timestamp delta is below \<open>10\<^sup>-\<^sup>6\<close> seconds the speed is 0, elsewhere it is
  the quotient of distance and delta; so no entry is infinite or NaN, and none is
  negative.
\<close>

theorem speed_sequence:
  assumes "wf_track d" "truthy (tstamp d)"
  shows "\<exists>ds sp. gpx_calculate_distance d True = Inr ds \<and> gpx_calculate_speed d = Inr sp \<and>
           length sp = npoints d \<and> sp ! 0 = 0 \<and>
           (\<forall>i. 1 \<le> i \<and> i < npoints d \<longrightarrow>
              sp ! i = (let t = chan (tstamp d) i - chan (tstamp d) (i - 1)
                        in if t < EPS then 0 else ds ! i / t)) \<and>
           (\<forall>v\<in>set sp. 0 \<le> v)"
proof -
  from gpx_calculate_speed_wf [OF assms] obtain ds ts where
    ds: "gpx_calculate_distance d True = Inr ds" "length ds = npoints d"
      "tstamp d = Some ts" "length ts = npoints d" "0 < npoints d"
    and sp: "gpx_calculate_speed d =
             Inr (map (\<lambda>i. if np_diff_prepend ts (ts ! 0) ! i < EPS then 0
                            else ds ! i / np_diff_prepend ts (ts ! 0) ! i) [0..<npoints d])"
    by (elim exE conjE)
  let ?sp = "map (\<lambda>i. if np_diff_prepend ts (ts ! 0) ! i < EPS then 0
                            else ds ! i / np_diff_prepend ts (ts ! 0) ! i) [0..<npoints d]"
  from gpx_calculate_distance_wf [OF assms(1), of True] ds(1)
  have el: "\<forall>j<npoints d. ds ! j = (if 0 < j then seg_dist d True (j - 1) else 0)"
    by simp
  have nth: "?sp ! i = (if np_diff_prepend ts (ts ! 0) ! i < EPS then 0
                            else ds ! i / np_diff_prepend ts (ts ! 0) ! i)" if "i < npoints d" for i
    using that by (simp add: Let_def)
  have z: "?sp ! 0 = 0" using ds(4,5) by (simp add: nth np_diff_prepend_nth EPS_def)
  have st: "?sp ! i = (let t = chan (tstamp d) i - chan (tstamp d) (i - 1)
                        in if t < EPS then 0 else ds ! i / t)" if "1 \<le> i \<and> i < npoints d" for i
    using that ds(3,4) by (simp add: np_diff_prepend_nth chan_def Let_def)
  have nn: "0 \<le> v" if "v \<in> set ?sp" for v
  proof -
    from that obtain i where i: "i < npoints d" "v = ?sp ! i"
      by (auto simp: in_set_conv_nth)
    have "0 \<le> ds ! i" using el i(1) by (simp add: seg_dist_nonneg)
    then show ?thesis unfolding i(2) nth [OF i(1)] by (simp add: Let_def EPS_def)
  qed
  show ?thesis using ds(1) sp z st nn by (intro exI [of _ ds] exI [of _ ?sp]) simp
qed

lemma wf_track_half: "wf_track track_half"
  by (simp add: wf_track_def track_half_def chan_ok_def)

theorem speed_sequence_witness:
  "wf_track track_half \<and> truthy (tstamp track_half) \<and>
   (\<exists>sp. gpx_calculate_speed track_half = Inr sp \<and> length sp = 2 \<and> sp ! 0 = 0 \<and>
      sp ! 1 = 637100 * pi \<and> (\<forall>v\<in>set sp. 0 \<le> v))"
proof -
  have t: "truthy (tstamp track_half)" by (simp add: track_half_def truthy_def)
  have n: "npoints track_half = 2" by (simp add: npoints_def track_half_def)
  from speed_sequence [OF wf_track_half t] obtain ds sp where
    ds: "gpx_calculate_distance track_half True = Inr ds"
    and sp: "gpx_calculate_speed track_half = Inr sp" "length sp = npoints track_half"
      "sp ! 0 = 0" "\<forall>v\<in>set sp. 0 \<le> v"
    and el: "\<forall>i. 1 \<le> i \<and> i < npoints track_half \<longrightarrow>
              sp ! i = (let t = chan (tstamp track_half) i - chan (tstamp track_half) (i - 1)
                        in if t < EPS then 0 else ds ! i / t)"
    by (elim exE conjE)
  from gpx_calculate_distance_wf [OF wf_track_half, of True] ds
  have "ds ! 1 = seg_dist track_half True 0" by (simp add: n)
  also have "\<dots> = 6371000 * pi"
    by (simp add: seg_dist_def track_half_def chan_def truthy_def dist_latlon_great_circle
        great_circle_equator_half)
  finally have d1: "ds ! Suc 0 = 6371000 * pi" by simp
  have "1 \<le> (1::nat) \<and> 1 < npoints track_half" by (simp add: n)
  from el [rule_format, OF this] have "sp ! 1 = 637100 * pi"
    by (simp add: d1 track_half_def chan_def EPS_def)
  then show ?thesis using wf_track_half t sp n by simp
qed

text \<open>
  Claim C10. The clamp of \<^verbatim>\<open>gpx_calculate_speed\<close> also covers negative deltas: where
  the timestamps of a well-formed track decrease from one point to the next, the speed
  at that step is 0, neither a negative value nor an error.
\<close>

theorem speed_negative_delta_clamped:
  assumes "wf_track d" "truthy (tstamp d)" "1 \<le> i" "i < npoints d"
    and "chan (tstamp d) i < chan (tstamp d) (i - 1)"
  shows "\<exists>sp. gpx_calculate_speed d = Inr sp \<and> length sp = npoints d \<and> sp ! i = 0"
proof -
  from gpx_calculate_speed_wf [OF assms(1,2)] obtain ds ts where
    ds: "tstamp d = Some ts" "length ts = npoints d"
    and sp: "gpx_calculate_speed d =
             Inr (map (\<lambda>i. if np_diff_prepend ts (ts ! 0) ! i < EPS then 0
                            else ds ! i / np_diff_prepend ts (ts ! 0) ! i) [0..<npoints d])"
    by (elim exE conjE)
  have "np_diff_prepend ts (ts ! 0) ! i = ts ! i - ts ! (i - 1)"
    using assms(3,4) ds(2) by (simp add: np_diff_prepend_nth)
  also have "\<dots> < 0" using assms(5) ds(1) by (simp add: chan_def)
  finally have "np_diff_prepend ts (ts ! 0) ! i < EPS" by (simp add: EPS_def)
  then show ?thesis using sp assms(4) by simp
qed

theorem speed_negative_delta_clamped_witness:
  "wf_track track_equator \<and> truthy (tstamp track_equator) \<and> (1::nat) \<le> 2 \<and>
   2 < npoints track_equator \<and>
   chan (tstamp track_equator) 2 < chan (tstamp track_equator) (2 - 1) \<and>
   (\<exists>ds sp. gpx_calculate_distance track_equator True = Inr ds \<and> 0 < ds ! 2 \<and>
      gpx_calculate_speed track_equator = Inr sp \<and> sp ! 2 = 0)"
proof -
  have t: "truthy (tstamp track_equator)" by (simp add: track_equator_def truthy_def)
  have lt: "chan (tstamp track_equator) 2 < chan (tstamp track_equator) (2 - 1)"
    by (simp add: track_equator_def chan_def)
  have n: "2 < npoints track_equator" by (simp add: npoints_track_equator)
  from gpx_calculate_distance_wf [OF wf_track_equator, of True] obtain ds where
    ds: "gpx_calculate_distance track_equator True = Inr ds"
      "\<forall>j<npoints track_equator. ds ! j = (if 0 < j then seg_dist track_equator True (j - 1) else 0)"
    by (elim exE conjE)
  have "(2::nat) - 1 = 1" by simp
  then have "ds ! 2 = seg_dist track_equator True 1" using ds(2) n by simp
  also have "\<dots> = 6371000 * pi"
    by (simp add: seg_dist_def track_equator_def chan_def truthy_def dist_latlon_great_circle
        great_circle_equator_half)
  finally have "0 < ds ! 2" by simp
  with speed_negative_delta_clamped [OF wf_track_equator t _ n lt] ds(1) t lt n
    wf_track_equator
  show ?thesis by auto
qed

section \<open>Claims about gpx\_write\<close>

text \<open>
  Claim C7. For every track, \<^verbatim>\<open>gpx_write\<close> with \<^verbatim>\<open>write_speed\<close> true and no timestamp
  channel raises a \<^verbatim>\<open>ValueError\<close> and leaves the file system as it was: the error comes
  before any serialisation or file write.
\<close>

theorem gpx_write_speed_without_tstamp:
  assumes "\<not> truthy (tstamp d)"
  shows "gpx_write to_xml w gpx_file d gpx_dist True = (w, Some ValueError)"
  using assms by (simp add: gpx_write_def)

theorem gpx_write_speed_without_tstamp_witness:
  "\<not> truthy (tstamp track_untimed) \<and>
   gpx_write to_xml_example world_empty ''out.gpx'' track_untimed [0, 1] True =
     (world_empty, Some ValueError)"
proof -
  have t: "\<not> truthy (tstamp track_untimed)" by (simp add: track_untimed_def truthy_def)
  from gpx_write_speed_without_tstamp [OF t] t show ?thesis by simp
qed

section \<open>The time synthesis of main\<close>

lemma for_each_append:
  "for_each (xs @ ys) body s = bind_e (for_each xs body s) (for_each ys body)"
  by (induction xs arbitrary: s) (simp_all split: sum.splits)

lemma for_each_length:
  assumes "\<forall>i\<in>set is. \<forall>xs. length xs = L \<longrightarrow>
             (\<exists>ys. body i (Some xs) = Inr (Some ys) \<and> length ys = L)"
    and "length xs = L"
  shows "\<exists>ys. for_each is body (Some xs) = Inr (Some ys) \<and> length ys = L"
  using assms
proof (induction "is" arbitrary: xs)
  case Nil
  then show ?case by simp
next
  case (Cons i "is")
  from Cons.prems obtain ys where ys: "body i (Some xs) = Inr (Some ys)" "length ys = L"
    by fastforce
  from Cons.IH [of ys] Cons.prems(1) ys(2)
  obtain zs where "for_each is body (Some ys) = Inr (Some zs)" "length zs = L"
    by auto
  with ys show ?case by simp
qed

lemma for_each_recurrence:
  assumes body: "\<And>i xs. i < m \<Longrightarrow> length xs = L \<Longrightarrow>
                   body i (Some xs) = Inr (Some (xs[Suc i := xs ! i + inc i]))"
    and "length xs = L" "m < L"
  shows "\<exists>ys. for_each [0..<m] body (Some xs) = Inr (Some ys) \<and> length ys = L \<and>
           ys ! 0 = xs ! 0 \<and> (\<forall>i<m. ys ! Suc i = ys ! i + inc i)"
  using assms(3) body
proof (induction m)
  case 0
  then show ?case using assms(2) by simp
next
  case (Suc m)
  from Suc.IH Suc.prems obtain ys where ys: "for_each [0..<m] body (Some xs) = Inr (Some ys)"
    "length ys = L" "ys ! 0 = xs ! 0" "\<forall>i<m. ys ! Suc i = ys ! i + inc i"
    by force
  let ?zs = "ys[Suc m := ys ! m + inc m]"
  have step: "body m (Some ys) = Inr (Some ?zs)" using Suc.prems(2) [of m ys] ys(2) by simp
  have "for_each [0..<Suc m] body (Some xs) = Inr (Some ?zs)"
    by (simp add: for_each_append ys(1) step)
  moreover have "length ?zs = L" using ys(2) by simp
  moreover have "?zs ! 0 = xs ! 0" using ys(3) by simp
  moreover have "\<forall>i<Suc m. ?zs ! Suc i = ?zs ! i + inc i"
  proof (intro allI impI)
    fix i assume i: "i < Suc m"
    show "?zs ! Suc i = ?zs ! i + inc i"
    proof (cases "i = m")
      case True
      then show ?thesis using Suc.prems(1) ys(2) by simp
    next
      case False
      with i have "i < m" by simp
      then show ?thesis using ys(4) by simp
    qed
  qed
  ultimately show ?case by blast
qed

lemma shift_step_ok:
  "i < length xs \<Longrightarrow>
     shift_step delta i (Some xs) = Inr (Some (xs[i := xs ! i + delta]))"
  by (simp add: shift_step_def setitem_def)

lemma velocity_step_ok:
  "Suc i < length xs \<Longrightarrow> Suc i < length dts \<Longrightarrow>
     velocity_step dts i (Some xs) = Inr (Some (xs[Suc i := xs ! i + dts ! Suc i]))"
  by (simp add: velocity_step_def setitem_def)

lemma interval_step_ok:
  "Suc i < length xs \<Longrightarrow>
     interval_step dt i (Some xs) = Inr (Some (xs[Suc i := xs ! i + dt]))"
  by (simp add: interval_step_def setitem_def)

lemma sorted_recurrence:
  assumes "\<forall>i<length ys - 1. ys ! Suc i = ys ! i + inc i" "\<forall>i<length ys - 1. 0 \<le> inc i"
  shows "sorted (ys :: real list)"
  unfolding sorted_iff_nth_Suc
proof (intro allI impI)
  fix i assume "Suc i < length ys"
  then have "i < length ys - 1" by simp
  with assms show "ys ! i \<le> ys ! Suc i" by simp
qed

lemma len_Some [simp]: "len (Some xs) = Inr (length xs)"
  by (simp add: len_def)

lemma begin_time_shift_ok:
  assumes "lat d = Some la" "length ts = length la" "0 < length la"
    and "\<forall>s. begintime a = Some s \<and> s \<noteq> [] \<longrightarrow> parse_begintime s \<noteq> None"
  shows "\<exists>ts1. begin_time_shift parse_begintime a d (Some ts) = Inr (Some ts1) \<and>
           length ts1 = length la"
proof (cases "begintime a")
  case None
  then show ?thesis using assms(2) by (simp add: begin_time_shift_def)
next
  case (Some s)
  show ?thesis
  proof (cases "s = []")
    case True
    then show ?thesis using Some assms(2) by (simp add: begin_time_shift_def)
  next
    case False
    with Some assms(4) obtain dt_utc where p: "parse_begintime s = Some dt_utc" by auto
    have "\<exists>ys. for_each [0..<length la] (shift_step (dt_utc - ts ! 0)) (Some ts) = Inr (Some ys) \<and>
            length ys = length la"
      using assms(2) by (intro for_each_length) (simp_all add: shift_step_ok)
    then show ?thesis using Some False p assms(1,2,3)
      by (simp add: begin_time_shift_def Let_def)
  qed
qed

lemma velocity_retiming_ok:
  assumes "lat d = Some la" "length ts = length la" "0 < length la"
    and "length gpx_dist = length la"
  shows "\<exists>ts2. velocity_retiming a gpx_dist d (Some ts) = Inr (Some ts2) \<and>
           length ts2 = length la \<and>
           (0 < velocity a \<longrightarrow>
              (\<forall>i<length la - 1. ts2 ! Suc i = ts2 ! i + gpx_dist ! Suc i / velocity a)) \<and>
           (\<not> 0 < velocity a \<longrightarrow> ts2 = ts)"
proof (cases "0 < velocity a")
  case True
  let ?dts = "map (\<lambda>x. x / velocity a) gpx_dist"
  have "\<exists>ys. for_each [0..<length la - 1] (velocity_step ?dts) (Some ts) = Inr (Some ys) \<and>
          length ys = length la \<and> ys ! 0 = ts ! 0 \<and>
          (\<forall>i<length la - 1. ys ! Suc i = ys ! i + ?dts ! Suc i)"
    using assms(2,3,4) by (intro for_each_recurrence) (simp_all add: velocity_step_ok)
  then obtain ys where ys:
    "for_each [0..<length la - 1] (velocity_step ?dts) (Some ts) = Inr (Some ys)"
    "length ys = length la" "\<forall>i<length la - 1. ys ! Suc i = ys ! i + ?dts ! Suc i"
    by (elim exE conjE)
  have "\<forall>i<length la - 1. ys ! Suc i = ys ! i + gpx_dist ! Suc i / velocity a"
    using ys(3) assms(4) by simp
  then show ?thesis using True ys(1,2) assms(1)
    by (simp add: velocity_retiming_def Let_def)
next
  case False
  then show ?thesis using assms(2) by (simp add: velocity_retiming_def)
qed

lemma interval_retiming_ok:
  assumes "lat d = Some la" "length ts = length la" "0 < length la"
  shows "\<exists>ts3. interval_retiming a d (Some ts) = Inr (Some ts3) \<and>
           length ts3 = length la \<and>
           (\<forall>dt. intervaltime a = Some dt \<and> 0 < dt \<longrightarrow>
              (\<forall>i<length la - 1. ts3 ! Suc i = ts3 ! i + dt)) \<and>
           ((\<forall>dt. intervaltime a = Some dt \<longrightarrow> \<not> 0 < dt) \<longrightarrow> ts3 = ts)"
proof (cases "\<exists>dt. intervaltime a = Some dt \<and> 0 < dt")
  case True
  then obtain dt where dt: "intervaltime a = Some dt" "0 < dt" by blast
  have "\<exists>ys. for_each [0..<length la - 1] (interval_step dt) (Some ts) = Inr (Some ys) \<and>
          length ys = length la \<and> ys ! 0 = ts ! 0 \<and>
          (\<forall>i<length la - 1. ys ! Suc i = ys ! i + dt)"
    using assms(2,3) by (intro for_each_recurrence) (simp_all add: interval_step_ok)
  then obtain ys where ys:
    "for_each [0..<length la - 1] (interval_step dt) (Some ts) = Inr (Some ys)"
    "length ys = length la" "\<forall>i<length la - 1. ys ! Suc i = ys ! i + dt"
    by (elim exE conjE)
  show ?thesis using dt ys assms(1) by (simp add: interval_retiming_def)
next
  case False
  then have "interval_retiming a d (Some ts) = Inr (Some ts)"
    by (auto simp: interval_retiming_def split: option.splits)
  then show ?thesis using False assms(2) by auto
qed

text \<open>
  Claim C8. For every well-formed track with timestamps, the time synthesis of \<^verbatim>\<open>main\<close>
  (the begin-time shift, then the constant-velocity retiming when \<open>v > 0\<close>, then the
  constant-interval retiming when \<open>dt > 0\<close>) leaves timestamps that are non-decreasing,
  provided one of the two retimings runs. With an interval \<open>dt > 0\<close> the result is
  \<open>ts[i+1] = ts[i] + dt\<close> (the later adjustment overwrites the earlier); otherwise it is
  \<open>ts[i+1] = ts[i] + distance(i, i+1) / v\<close>.
\<close>

theorem time_synthesis_monotone:
  assumes "wf_track d" "truthy (tstamp d)"
    and "\<forall>s. begintime a = Some s \<and> s \<noteq> [] \<longrightarrow> parse_begintime s \<noteq> None"
    and "0 < velocity a \<or> (\<exists>dt. intervaltime a = Some dt \<and> 0 < dt)"
  shows "\<exists>gpx_dist d' ts.
           gpx_calculate_distance d True = Inr gpx_dist \<and>
           time_synthesis parse_begintime a gpx_dist d = Inr d' \<and>
           tstamp d' = Some ts \<and> length ts = npoints d \<and> sorted ts \<and>
           (\<forall>dt. intervaltime a = Some dt \<and> 0 < dt \<longrightarrow>
              (\<forall>i. Suc i < npoints d \<longrightarrow> ts ! Suc i = ts ! i + dt)) \<and>
           ((\<forall>dt. intervaltime a = Some dt \<longrightarrow> \<not> 0 < dt) \<longrightarrow>
              (\<forall>i. Suc i < npoints d \<longrightarrow> ts ! Suc i = ts ! i + gpx_dist ! Suc i / velocity a))"
proof -
  from assms(1) obtain la where c: "lat d = Some la" "chan_ok (length la) (tstamp d)"
    "npoints d = length la"
    by (rule wf_trackE)
  from chan_ok_truthy [OF c(2) assms(2)] obtain ts0 where
    ts0: "tstamp d = Some ts0" "length ts0 = length la" "0 < length la"
    by (elim exE conjE)
  from gpx_calculate_distance_wf [OF assms(1), of True] obtain gpx_dist where
    gd: "gpx_calculate_distance d True = Inr gpx_dist" "length gpx_dist = npoints d"
      "\<forall>j<npoints d. gpx_dist ! j = (if 0 < j then seg_dist d True (j - 1) else 0)"
    by (elim exE conjE)
  have nn: "0 \<le> gpx_dist ! j" if "j < length la" for j
    using gd(3) that c(3) by (simp add: seg_dist_nonneg)
  from begin_time_shift_ok [OF c(1) ts0(2,3) assms(3)] obtain ts1 where
    ts1: "begin_time_shift parse_begintime a d (Some ts0) = Inr (Some ts1)"
      "length ts1 = length la"
    by (elim exE conjE)
  from velocity_retiming_ok [OF c(1) ts1(2) ts0(3), of gpx_dist a] gd(2) c(3) obtain ts2 where
    ts2: "velocity_retiming a gpx_dist d (Some ts1) = Inr (Some ts2)" "length ts2 = length la"
      "0 < velocity a \<longrightarrow>
         (\<forall>i<length la - 1. ts2 ! Suc i = ts2 ! i + gpx_dist ! Suc i / velocity a)"
    by auto
  from interval_retiming_ok [OF c(1) ts2(2) ts0(3), of a] obtain ts3 where
    ts3: "interval_retiming a d (Some ts2) = Inr (Some ts3)" "length ts3 = length la"
      "\<forall>dt. intervaltime a = Some dt \<and> 0 < dt \<longrightarrow>
              (\<forall>i<length la - 1. ts3 ! Suc i = ts3 ! i + dt)"
      "(\<forall>dt. intervaltime a = Some dt \<longrightarrow> \<not> 0 < dt) \<longrightarrow> ts3 = ts2"
    by (elim exE conjE)
  have run: "time_synthesis parse_begintime a gpx_dist d = Inr (d\<lparr>tstamp := Some ts3\<rparr>)"
    by (simp add: time_synthesis_def ts0(1) ts1(1) ts2(1) ts3(1))
  have iv: "\<forall>dt. intervaltime a = Some dt \<and> 0 < dt \<longrightarrow>
              (\<forall>i. Suc i < npoints d \<longrightarrow> ts3 ! Suc i = ts3 ! i + dt)"
    using ts3(3) c(3) by (simp add: less_diff_conv)
  have vel: "\<forall>i. Suc i < npoints d \<longrightarrow> ts3 ! Suc i = ts3 ! i + gpx_dist ! Suc i / velocity a"
    if no: "\<forall>dt. intervaltime a = Some dt \<longrightarrow> \<not> 0 < dt"
  proof -
    from no assms(4) have v: "0 < velocity a" by blast
    from no ts3(4) have "ts3 = ts2" by blast
    with ts2(3) v c(3) show ?thesis by (simp add: less_diff_conv)
  qed
  have "sorted ts3"
  proof (cases "\<exists>dt. intervaltime a = Some dt \<and> 0 < dt")
    case True
    then obtain dt where dt: "intervaltime a = Some dt" "0 < dt" by blast
    with ts3(3) have "\<forall>i<length ts3 - 1. ts3 ! Suc i = ts3 ! i + dt"
      using ts3(2) by simp
    then show ?thesis using dt(2) by (intro sorted_recurrence [where inc = "\<lambda>_. dt"]) simp_all
  next
    case False
    then have no: "\<forall>dt. intervaltime a = Some dt \<longrightarrow> \<not> 0 < dt" by blast
    with assms(4) have v: "0 < velocity a" by blast
    from no ts3(4) have e: "ts3 = ts2" by blast
    have "\<forall>i<length ts3 - 1. ts3 ! Suc i = ts3 ! i + gpx_dist ! Suc i / velocity a"
      using ts2(3) v e ts2(2) by simp
    moreover have "\<forall>i<length ts3 - 1. 0 \<le> gpx_dist ! Suc i / velocity a"
      using nn v ts3(2) by (simp add: less_diff_conv)
    ultimately show ?thesis
      by (intro sorted_recurrence [where inc = "\<lambda>i. gpx_dist ! Suc i / velocity a"])
  qed
  then show ?thesis using gd(1) run ts3(2) c(3) iv vel
    by (intro exI [of _ gpx_dist] exI [of _ "d\<lparr>tstamp := Some ts3\<rparr>"] exI [of _ ts3]) simp
qed

theorem time_synthesis_monotone_witness:
  "wf_track track_equator \<and> truthy (tstamp track_equator) \<and>
   begintime args_default = None \<and>
   (0 < velocity args_default \<or> (\<exists>dt. intervaltime args_default = Some dt \<and> 0 < dt)) \<and>
   \<not> sorted (the (tstamp track_equator)) \<and>
   (\<exists>gpx_dist d' ts.
      gpx_calculate_distance track_equator True = Inr gpx_dist \<and>
      time_synthesis (\<lambda>_. None) args_default gpx_dist track_equator = Inr d' \<and>
      tstamp d' = Some ts \<and> length ts = 3 \<and> sorted ts)"
proof -
  have t: "truthy (tstamp track_equator)" by (simp add: track_equator_def truthy_def)
  have p: "\<forall>s. begintime args_default = Some s \<and> s \<noteq> [] \<longrightarrow>
             (\<lambda>_. None :: real option) s \<noteq> None"
    by (simp add: args_default_def)
  have v: "0 < velocity args_default \<or> (\<exists>dt. intervaltime args_default = Some dt \<and> 0 < dt)"
    by (simp add: args_default_def)
  have raw: "\<not> sorted (the (tstamp track_equator))" by (simp add: track_equator_def)
  have b: "begintime args_default = None" by (simp add: args_default_def)
  from time_synthesis_monotone [OF wf_track_equator t p v]
  show ?thesis using t b v raw wf_track_equator npoints_track_equator
    by (elim exE conjE) (intro conjI exI, simp_all)
qed

section \<open>gpx\_remove\_duplicates\<close>

lemma gpx_calculate_distance_empty: "gpx_calculate_distance track_empty False = Inr []"
  by (simp add: gpx_calculate_distance_def track_empty_def len_def)

lemma track_empty_fields:
  "lat track_empty = Some []" "lon track_empty = Some []" "ele track_empty = Some []"
  "tstamp track_empty = Some []" "tzinfo track_empty = None"
  by (simp_all add: track_empty_def)

text \<open>
  Claim C3 says that \<^verbatim>\<open>gpx_remove_duplicates\<close> returns its input unchanged when there
  are no duplicates, and that it is idempotent, for every track. At the empty track,
  which \<^verbatim>\<open>gpx_read\<close> returns for a file without track points, the code does neither: the
  index 0 is put in front of an empty list of indices, the comparison of the lengths
  fails, every channel becomes \<^verbatim>\<open>None\<close>, and a second call raises a \<^verbatim>\<open>TypeError\<close>.
\<close>

theorem remove_duplicates_empty_track:
  "gpx_remove_duplicates track_empty = Inr removed_channels \<and>
   removed_channels \<noteq> track_empty \<and>
   gpx_remove_duplicates removed_channels = Inl TypeError"
proof -
  have "gpx_remove_duplicates_obj track_empty = Inr (Fresh removed_channels)"
    by (simp add: gpx_remove_duplicates_obj_def gpx_calculate_distance_empty np_nonzero_def
        reindex_def truthy_def track_empty_fields removed_channels_def)
  then have "gpx_remove_duplicates track_empty = Inr removed_channels"
    by (simp add: gpx_remove_duplicates_def value_of_def)
  moreover have "removed_channels \<noteq> track_empty"
    by (simp add: removed_channels_def track_empty_def)
  moreover have "gpx_remove_duplicates removed_channels = Inl TypeError"
    by (simp add: gpx_remove_duplicates_def gpx_remove_duplicates_obj_def
        gpx_calculate_distance_def len_def removed_channels_def)
  ultimately show ?thesis by simp
qed

lemma dist_latlon_zero_iff_unit_vec:
  "dist_latlon la1 lo1 la2 lo2 = 0 \<longleftrightarrow> unit_vec la1 lo1 = unit_vec la2 lo2"
proof -
  let ?a = "hav_arg (radians la1) (radians lo1) (radians la2) (radians lo2)"
  have "dist_latlon la1 lo1 la2 lo2 = 0 \<longleftrightarrow> 4 * ?a = 0"
    by (simp add: dist_latlon_eq_0_iff)
  also have "\<dots> \<longleftrightarrow> unit_vec la1 lo1 = unit_vec la2 lo2"
    unfolding hav_arg_chord unit_vec_def
    by (auto simp: add_nonneg_eq_0_iff)
  finally show ?thesis .
qed

text \<open>
  Zero distance is equality of the points on the sphere, not of the coordinates: in
  exact arithmetic the two ends of the antimeridian coincide. (In IEEE arithmetic the
  sine of the float nearest to \<open>\<pi>\<close> is not zero, and the script finds a distance of about
  \<open>1.6 \<times> 10\<^sup>-\<^sup>9\<close> metres there.)
\<close>

lemma dist_latlon_antimeridian: "dist_latlon 0 180 0 (- 180) = 0"
  by (simp add: dist_latlon_zero_iff_unit_vec unit_vec_def radians_def)

lemma retained_adjacent:
  fixes f :: "nat \<Rightarrow> 'a"
  assumes "0 < n"
  shows "distinct_adj (map f (0 # filter (\<lambda>i. 0 < i \<and> f (i - 1) \<noteq> f i) [0..<n])) \<and>
         f (last (0 # filter (\<lambda>i. 0 < i \<and> f (i - 1) \<noteq> f i) [0..<n])) = f (n - 1)"
  using assms
proof (induction n rule: nat_induct_non_zero)
  case 1
  then show ?case by simp
next
  case (Suc n)
  define idx where "idx = 0 # filter (\<lambda>i. 0 < i \<and> f (i - 1) \<noteq> f i) [0..<n]"
  have ne: "idx \<noteq> []" by (simp add: idx_def)
  from Suc.IH have adj: "distinct_adj (map f idx)" and l: "f (last idx) = f (n - 1)"
    unfolding idx_def by blast+
  show ?case
  proof (cases "f (n - 1) \<noteq> f n")
    case True
    have e: "0 # filter (\<lambda>i. 0 < i \<and> f (i - 1) \<noteq> f i) [0..<Suc n] = idx @ [n]"
      using True Suc.hyps by (simp add: idx_def)
    have "last (map f idx) \<noteq> f n" using True l ne by (simp add: last_map)
    then have "distinct_adj (map f idx @ [f n])"
      unfolding distinct_adj_append_iff using adj by simp
    then show ?thesis unfolding e by simp
  next
    case False
    have e: "0 # filter (\<lambda>i. 0 < i \<and> f (i - 1) \<noteq> f i) [0..<Suc n] = idx"
      using False by (simp add: idx_def)
    from False l have "f (last idx) = f (Suc n - 1)" by simp
    with adj show ?thesis unfolding e by blast
  qed
qed

text \<open>
  On every well-formed track with at least one point the function keeps point 0 and
  one point of every run of coinciding points, re-indexes the channels alike, is the
  identity where nothing coincides, and is idempotent: the lemmas
  \<open>gpx_remove_duplicates_nonempty\<close>, \<open>gpx_remove_duplicates_identity\<close> and
  \<open>gpx_remove_duplicates_idempotent\<close> below.
\<close>

lemma map_e_getitem:
  "\<forall>i\<in>set idx. i < length xs \<Longrightarrow> map_e (getitem (Some xs)) idx = Inr (map ((!) xs) idx)"
  by (induction idx) simp_all

lemma reindex_ok:
  assumes "chan_ok n c" "truthy c \<longrightarrow> (\<forall>i\<in>set idx. i < n)"
  shows "reindex c idx = Inr (select c idx)"
proof (cases "truthy c")
  case True
  with assms(1) obtain xs where xs: "c = Some xs" "length xs = n"
    using chan_ok_truthy by blast
  have "map_e (getitem (Some xs)) idx = Inr (map ((!) xs) idx)"
    using True assms(2) xs(2) by (intro map_e_getitem) simp
  moreover have "map ((!) xs) idx = map (chan c) idx"
    by (simp add: chan_def xs(1))
  ultimately show ?thesis using True by (simp add: reindex_def select_def xs(1))
next
  case False
  then show ?thesis by (simp add: reindex_def select_def)
qed

lemma nonzero_retained:
  assumes "wf_track d" "gpx_calculate_distance d False = Inr ds"
  shows "0 # np_nonzero ds = retained d" "length ds = npoints d"
proof -
  from gpx_calculate_distance_wf [OF assms(1), of False] assms(2)
  have l: "length ds = npoints d"
    and el: "\<forall>j<npoints d. ds ! j = (if 0 < j then seg_dist d False (j - 1) else 0)"
    by simp_all
  have "filter (\<lambda>i. ds ! i \<noteq> 0) [0..<npoints d] =
        filter (\<lambda>i. 0 < i \<and> seg_dist d False (i - 1) \<noteq> 0) [0..<npoints d]"
    using el by (intro filter_cong) auto
  then show "0 # np_nonzero ds = retained d" by (simp add: np_nonzero_def retained_def l)
  show "length ds = npoints d" by (rule l)
qed

lemma retained_bound: "0 < npoints d \<Longrightarrow> \<forall>i\<in>set (retained d). i < npoints d"
  by (auto simp: retained_def)

lemma wf_track_truthy_nonempty:
  assumes "wf_track d" "truthy c" "c = lat d \<or> c = lon d \<or> c = ele d \<or> c = tstamp d"
  shows "0 < npoints d"
proof -
  from assms(1) obtain la lo where c: "lat d = Some la" "lon d = Some lo"
    "length lo = length la" "chan_ok (length la) (ele d)" "chan_ok (length la) (tstamp d)"
    "npoints d = length la"
    by (rule wf_trackE)
  from assms(3) consider "c = lat d" | "c = lon d" | "c = ele d" | "c = tstamp d" by blast
  then show ?thesis
  proof cases
    case 1
    then show ?thesis using assms(2) c by (simp add: truthy_def)
  next
    case 2
    then show ?thesis using assms(2) c by (auto simp: truthy_def)
  next
    case 3
    then show ?thesis using chan_ok_truthy [OF c(4)] assms(2) c(6) by auto
  next
    case 4
    then show ?thesis using chan_ok_truthy [OF c(5)] assms(2) c(6) by auto
  qed
qed

lemma gpx_remove_duplicates_obj_wf:
  assumes "wf_track d"
  shows "gpx_remove_duplicates_obj d =
           Inr (if length (retained d) = npoints d then Argument
                else Fresh \<lparr>lat = select (lat d) (retained d), lon = select (lon d) (retained d),
                            ele = select (ele d) (retained d),
                            tstamp = select (tstamp d) (retained d), tzinfo = tzinfo d\<rparr>)"
proof -
  from assms obtain la lo where c: "lat d = Some la" "lon d = Some lo"
    "length lo = length la" "chan_ok (length la) (ele d)" "chan_ok (length la) (tstamp d)"
    "npoints d = length la"
    by (rule wf_trackE)
  from gpx_calculate_distance_wf [OF assms, of False] obtain ds where
    ds: "gpx_calculate_distance d False = Inr ds"
    by (elim exE conjE)
  note r = nonzero_retained [OF assms ds]
  have ok: "chan_ok (npoints d) (lat d)" "chan_ok (npoints d) (lon d)"
    "chan_ok (npoints d) (ele d)" "chan_ok (npoints d) (tstamp d)"
    using c by (simp_all add: chan_ok_def)
  have b: "truthy x \<longrightarrow> (\<forall>i\<in>set (retained d). i < npoints d)"
    if "x = lat d \<or> x = lon d \<or> x = ele d \<or> x = tstamp d" for x
    using wf_track_truthy_nonempty [OF assms _ that] retained_bound by blast
  have re: "reindex (lat d) (retained d) = Inr (select (lat d) (retained d))"
    "reindex (lon d) (retained d) = Inr (select (lon d) (retained d))"
    "reindex (ele d) (retained d) = Inr (select (ele d) (retained d))"
    "reindex (tstamp d) (retained d) = Inr (select (tstamp d) (retained d))"
    by (rule reindex_ok [OF ok(1) b], simp, rule reindex_ok [OF ok(2) b], simp,
        rule reindex_ok [OF ok(3) b], simp, rule reindex_ok [OF ok(4) b], simp)
  have len: "Suc (length (np_nonzero ds)) = length (retained d)"
    using r(1) [symmetric] by simp
  show ?thesis
    by (simp add: gpx_remove_duplicates_obj_def ds r len Let_def re)
qed

lemma upt_Cons_map_Suc: "0 < n \<Longrightarrow> [0..<n] = 0 # map Suc [0..<n - 1]"
proof -
  assume n: "0 < n"
  then have "[0..<n] = 0 # [Suc 0..<n]" by (rule upt_conv_Cons)
  also have "[Suc 0..<n] = [Suc 0..<Suc (n - 1)]" using n by simp
  also have "\<dots> = map Suc [0..<n - 1]" by (rule map_Suc_upt [symmetric])
  finally show ?thesis .
qed

lemma retained_all_iff:
  assumes "0 < npoints d"
  shows "length (retained d) = npoints d \<longleftrightarrow> no_dups d"
proof -
  let ?P = "\<lambda>i. 0 < i \<and> seg_dist d False (i - 1) \<noteq> 0"
  let ?n = "npoints d"
  have u: "[0..<?n] = 0 # map Suc [0..<?n - 1]"
    by (rule upt_Cons_map_Suc) (rule assms(1))
  have f: "filter ?P [0..<?n] = map Suc (filter (\<lambda>j. seg_dist d False j \<noteq> 0) [0..<?n - 1])"
    by (subst u) (simp add: filter_map comp_def)
  have "length (retained d) = ?n \<longleftrightarrow>
        length (filter (\<lambda>j. seg_dist d False j \<noteq> 0) [0..<?n - 1]) = length [0..<?n - 1]"
    unfolding retained_def f using assms by auto
  also have "\<dots> \<longleftrightarrow> filter (\<lambda>j. \<not> seg_dist d False j \<noteq> 0) [0..<?n - 1] = []"
    using sum_length_filter_compl [of "\<lambda>j. seg_dist d False j \<noteq> 0" "[0..<?n - 1]"]
    by auto
  also have "\<dots> \<longleftrightarrow> no_dups d"
    by (simp add: filter_empty_conv no_dups_def)
  finally show ?thesis .
qed

lemma retained_no_dups:
  assumes "0 < npoints d" "no_dups d"
  shows "retained d = [0..<npoints d]"
proof -
  let ?n = "npoints d"
  have u: "[0..<?n] = 0 # map Suc [0..<?n - 1]"
    by (rule upt_Cons_map_Suc) (rule assms(1))
  have "filter (\<lambda>i. 0 < i \<and> seg_dist d False (i - 1) \<noteq> 0) [0..<?n] =
        map Suc (filter (\<lambda>j. seg_dist d False j \<noteq> 0) [0..<?n - 1])"
    by (subst u) (simp add: filter_map comp_def)
  also have "filter (\<lambda>j. seg_dist d False j \<noteq> 0) [0..<?n - 1] = [0..<?n - 1]"
    using assms(2) by (simp add: no_dups_def)
  finally show ?thesis using u by (simp add: retained_def)
qed

lemma seg_dist_False:
  "seg_dist d False j =
     dist_latlon (chan (lat d) j) (chan (lon d) j) (chan (lat d) (Suc j)) (chan (lon d) (Suc j))"
  by (simp add: seg_dist_def)

lemma retained_distinct_adj:
  assumes "0 < npoints d"
  shows "distinct_adj (map (\<lambda>i. unit_vec (chan (lat d) i) (chan (lon d) i)) (retained d))"
proof -
  let ?f = "\<lambda>i. unit_vec (chan (lat d) i) (chan (lon d) i)"
  have "filter (\<lambda>i. 0 < i \<and> seg_dist d False (i - 1) \<noteq> 0) [0..<npoints d] =
        filter (\<lambda>i. 0 < i \<and> ?f (i - 1) \<noteq> ?f i) [0..<npoints d]"
  proof (intro filter_cong refl)
    fix i
    show "(0 < i \<and> seg_dist d False (i - 1) \<noteq> 0) = (0 < i \<and> ?f (i - 1) \<noteq> ?f i)"
    proof (cases i)
      case 0
      then show ?thesis by simp
    next
      case (Suc j)
      then show ?thesis by (simp add: seg_dist_False dist_latlon_zero_iff_unit_vec)
    qed
  qed
  then have "retained d = 0 # filter (\<lambda>i. 0 < i \<and> ?f (i - 1) \<noteq> ?f i) [0..<npoints d]"
    by (simp add: retained_def)
  then show ?thesis using retained_adjacent [OF assms, of ?f] by simp
qed

lemma select_truthy:
  "truthy c \<Longrightarrow> select c idx = Some (map (chan c) idx)"
  "\<not> truthy c \<Longrightarrow> select c idx = None"
  by (simp_all add: select_def)

lemma retained_nonempty [simp]: "retained d \<noteq> []"
  by (simp add: retained_def)

lemma reindexed_select: "reindexed c (select c (retained d)) (retained d)"
  by (simp add: reindexed_def select_def truthy_def)

lemma chan_ok_select: "chan_ok (length idx) (select c idx)"
  by (simp add: chan_ok_def select_def)

lemma reindexed_self:
  assumes "chan_ok n c" "idx = [0..<n]"
  shows "reindexed c c idx"
proof -
  have "c = Some (map (chan c) [0..<n])" if "truthy c"
  proof -
    from chan_ok_truthy [OF assms(1) that] obtain xs where xs: "c = Some xs" "length xs = n"
      by blast
    have "map (chan c) [0..<n] = map ((!) xs) [0..<length xs]"
      by (simp add: chan_def xs)
    also have "\<dots> = xs" by (rule map_nth)
    finally show ?thesis using xs(1) by simp
  qed
  then show ?thesis by (simp add: reindexed_def assms(2))
qed

lemma gpx_remove_duplicates_nonempty:
  assumes "wf_track d" "0 < npoints d"
  shows "\<exists>d'. gpx_remove_duplicates d = Inr d' \<and> wf_track d' \<and>
           npoints d' = length (retained d) \<and> no_dups d' \<and> tzinfo d' = tzinfo d \<and>
           reindexed (lat d) (lat d') (retained d) \<and> reindexed (lon d) (lon d') (retained d) \<and>
           reindexed (ele d) (ele d') (retained d) \<and>
           reindexed (tstamp d) (tstamp d') (retained d)"
proof -
  from assms(1) obtain la lo where c: "lat d = Some la" "lon d = Some lo"
    "length lo = length la" "chan_ok (length la) (ele d)" "chan_ok (length la) (tstamp d)"
    "npoints d = length la"
    by (rule wf_trackE)
  have ok: "chan_ok (npoints d) (lat d)" "chan_ok (npoints d) (lon d)"
    "chan_ok (npoints d) (ele d)" "chan_ok (npoints d) (tstamp d)"
    using c by (simp_all add: chan_ok_def)
  show ?thesis
  proof (cases "length (retained d) = npoints d")
    case True
    then have "gpx_remove_duplicates d = Inr d"
      by (simp add: gpx_remove_duplicates_def gpx_remove_duplicates_obj_wf [OF assms(1)]
          value_of_def)
    moreover from True have nd: "no_dups d" using retained_all_iff [OF assms(2)] by simp
    moreover note r = retained_no_dups [OF assms(2) nd]
    moreover have "reindexed (lat d) (lat d) (retained d)"
      "reindexed (lon d) (lon d) (retained d)" "reindexed (ele d) (ele d) (retained d)"
      "reindexed (tstamp d) (tstamp d) (retained d)"
      by (rule reindexed_self [OF ok(1) r], rule reindexed_self [OF ok(2) r],
          rule reindexed_self [OF ok(3) r], rule reindexed_self [OF ok(4) r])
    ultimately show ?thesis using assms(1) True
      by (intro exI [of _ d]) simp
  next
    case False
    let ?idx = "retained d"
    let ?d' = "\<lparr>lat = select (lat d) ?idx, lon = select (lon d) ?idx,
                ele = select (ele d) ?idx, tstamp = select (tstamp d) ?idx,
                tzinfo = tzinfo d\<rparr>"
    have run: "gpx_remove_duplicates d = Inr ?d'" using False
      by (simp add: gpx_remove_duplicates_def gpx_remove_duplicates_obj_wf [OF assms(1)]
          value_of_def)
    have tl: "truthy (lat d)" "truthy (lon d)" using c assms(2) by (auto simp: truthy_def)
    have la': "lat ?d' = Some (map (chan (lat d)) ?idx)"
      and lo': "lon ?d' = Some (map (chan (lon d)) ?idx)"
      using tl by (simp_all add: select_truthy)
    have n': "npoints ?d' = length ?idx" by (simp add: npoints_def select_truthy(1) [OF tl(1)])
    have wf': "wf_track ?d'"
      using chan_ok_select [of ?idx "ele d"] chan_ok_select [of ?idx "tstamp d"]
      by (simp add: wf_track_def select_truthy(1) [OF tl(1)] select_truthy(1) [OF tl(2)])
    have nd': "no_dups ?d'"
      unfolding no_dups_def n'
    proof
      fix j assume "j \<in> set [0..<length ?idx - 1]"
      then have j: "Suc j < length ?idx" by simp
      from retained_distinct_adj [OF assms(2)] j
      have "unit_vec (chan (lat d) (?idx ! j)) (chan (lon d) (?idx ! j)) \<noteq>
            unit_vec (chan (lat d) (?idx ! Suc j)) (chan (lon d) (?idx ! Suc j))"
        by (simp add: distinct_adj_conv_nth)
      then show "seg_dist ?d' False j \<noteq> 0" using j
        unfolding seg_dist_False la' lo'
        by (simp add: chan_def dist_latlon_zero_iff_unit_vec)
    qed
    show ?thesis using run wf' n' nd'
      by (intro exI [of _ ?d']) (simp add: reindexed_select)
  qed
qed

lemma gpx_remove_duplicates_identity:
  assumes "wf_track d" "0 < npoints d" "no_dups d"
  shows "gpx_remove_duplicates d = Inr d"
  using retained_all_iff [OF assms(2)] assms(3)
  by (simp add: gpx_remove_duplicates_def gpx_remove_duplicates_obj_wf [OF assms(1)]
      value_of_def)

lemma gpx_remove_duplicates_idempotent:
  assumes "wf_track d" "0 < npoints d"
  shows "bind_e (gpx_remove_duplicates d) gpx_remove_duplicates = gpx_remove_duplicates d"
proof -
  from gpx_remove_duplicates_nonempty [OF assms] obtain d' where
    d': "gpx_remove_duplicates d = Inr d'" "wf_track d'" "npoints d' = length (retained d)"
      "no_dups d'"
    by (elim exE conjE)
  have "0 < npoints d'" using d'(3) by simp
  from gpx_remove_duplicates_identity [OF d'(2) this d'(4)] d'(1) show ?thesis by simp
qed

section \<open>gpx\_interpolate\<close>

lemma hd_cumsum [simp]: "hd (cumsum fadd (x # xs)) = x"
  by (simp add: cumsum_def)

lemma strict_sorted_hd_le_last:
  fixes xs :: "real list"
  assumes "sorted_wrt (<) xs" "xs \<noteq> []"
  shows "hd xs \<le> last xs"
proof (cases xs)
  case Nil
  with assms(2) show ?thesis by simp
next
  case (Cons a as)
  show ?thesis
  proof (cases "as = []")
    case True
    with Cons show ?thesis by simp
  next
    case False
    then have "last as \<in> set as" by simp
    with assms(1) Cons have "a < last as" by simp
    with Cons False show ?thesis by simp
  qed
qed

lemma np_linspace_ok:
  assumes "0 \<le> k" "start \<le> stop"
  shows "\<exists>x. np_linspace start stop k = Inr x \<and> length x = nat k \<and>
           (\<forall>q\<in>set x. start \<le> q \<and> q \<le> stop)"
proof -
  let ?n = "nat k"
  let ?y = "if 1 < ?n then map (\<lambda>i. real i * ((stop - start) / real (?n - 1)) + start) [0..<?n]
            else map (\<lambda>i. real i * (stop - start) + start) [0..<?n]"
  let ?x = "if 1 < ?n then ?y[?n - 1 := stop] else ?y"
  have run: "np_linspace start stop k = Inr ?x"
    using assms(1) by (simp add: np_linspace_def Let_def)
  have len: "length ?x = ?n" by simp
  have rng: "start \<le> q \<and> q \<le> stop" if "q \<in> set ?x" for q
  proof (cases "1 < ?n")
    case True
    from that True have "q \<in> insert stop (set ?y)"
      using set_update_subset_insert [of ?y "?n - 1" stop] by auto
    then consider "q = stop" | i where "i < ?n" "q = real i * ((stop - start) / real (?n - 1)) + start"
      using True by auto
    then show ?thesis
    proof cases
      case 1
      then show ?thesis using assms(2) by simp
    next
      case 2
      have d: "0 < real (?n - 1)" using True by simp
      have i: "real i \<le> real (?n - 1)" using 2(1) by simp
      have "0 \<le> real i * ((stop - start) / real (?n - 1))"
        using assms(2) d by simp
      moreover have "real i * ((stop - start) / real (?n - 1)) \<le>
          real (?n - 1) * ((stop - start) / real (?n - 1))"
        using i assms(2) d by (intro mult_right_mono) simp_all
      moreover have "real (?n - 1) * ((stop - start) / real (?n - 1)) = stop - start"
        using d by simp
      ultimately show ?thesis using 2(2) by simp
    qed
  next
    case False
    with that have "q = start" by (cases "?n = 0") (auto simp: less_Suc_eq)
    then show ?thesis using assms(2) by simp
  qed
  show ?thesis using run len rng by blast
qed

lemma rows_same_length:
  assumes "\<forall>c\<in>set cs. chan_ok n c"
  shows "\<forall>r\<in>set (map the (filter truthy cs)). length r = n"
proof
  fix r assume "r \<in> set (map the (filter truthy cs))"
  then obtain c where c: "c \<in> set cs" "truthy c" "r = the c" by auto
  with assms chan_ok_truthy [of n c] show "length r = n" by auto
qed

lemma np_array2_ok: "\<forall>r\<in>set rows. length r = n \<Longrightarrow> np_array2 rows = Inr rows"
  by (cases rows) (simp_all add: np_array2_def)

lemma channel_has_nth:
  "i < length y \<Longrightarrow> \<forall>r\<in>set y. length r = m \<Longrightarrow> channel_has (Some (y ! i)) m"
  by (simp add: channel_has_def)

lemma channel_has_last:
  "y \<noteq> [] \<Longrightarrow> \<forall>r\<in>set y. length r = m \<Longrightarrow> channel_has (Some (last y)) m"
  by (simp add: channel_has_def)

lemma interp_result_ok:
  assumes "\<forall>r\<in>set y. length r = m" "2 \<le> length y" "truthy (ele d) \<longrightarrow> 3 \<le> length y"
  shows "\<exists>r. interp_result y d = Inr r \<and> has_points r d m"
proof -
  have ne: "y \<noteq> []" using assms(2) by (cases y) simp_all
  have ly: "0 < length y" "1 < length y" using assms(2) by linarith+
  have r0: "row y 0 = Inr (y ! 0)" "row y (Suc 0) = Inr (y ! Suc 0)"
    using assms(2) ne by (simp_all add: row_def)
  have r2: "row y 2 = Inr (y ! 2)" if "truthy (ele d)"
    using that assms(3) by (simp add: row_def)
  have l: "last_e y = Inr (last y)" using ne by (simp add: last_e_def)
  have c0: "channel_has (Some (y ! 0)) m" "channel_has (Some (y ! Suc 0)) m"
    using channel_has_nth [OF ly(1) assms(1)] channel_has_nth [OF ly(2) assms(1)]
    by simp_all
  have c2: "channel_has (Some (y ! 2)) m" if "truthy (ele d)"
    using that assms(3) by (intro channel_has_nth [OF _ assms(1)]) simp
  have cl: "channel_has (Some (last y)) m" using ne assms(1) by (rule channel_has_last)
  show ?thesis
  proof (cases "truthy (ele d)"; cases "truthy (tstamp d)")
    assume a: "truthy (ele d)" "truthy (tstamp d)"
    show ?thesis using c0 c2 [OF a(1)] cl
      by (simp add: interp_result_def has_points_def r0 r2 [OF a(1)] l a)
  next
    assume a: "truthy (ele d)" "\<not> truthy (tstamp d)"
    show ?thesis using c0 c2 [OF a(1)]
      by (simp add: interp_result_def has_points_def r0 r2 [OF a(1)] a)
  next
    assume a: "\<not> truthy (ele d)" "truthy (tstamp d)"
    show ?thesis using c0 cl by (simp add: interp_result_def has_points_def r0 l a)
  next
    assume a: "\<not> truthy (ele d)" "\<not> truthy (tstamp d)"
    show ?thesis using c0 by (simp add: interp_result_def has_points_def r0 a)
  qed
qed

text \<open>
  The track without points has no knots: the removal of duplicates turns its channels
  into \<^verbatim>\<open>None\<close>, and the distance calculation raises on them.
\<close>

lemma arc_length_axis_empty:
  assumes "wf_track d" "npoints d = 0"
  shows "arc_length_axis fadd d = Inl TypeError"
proof -
  from assms(1) obtain la where c: "lat d = Some la" "npoints d = length la"
    by (rule wf_trackE)
  with assms(2) have l: "lat d = Some []" by simp
  have r: "retained d = [0]" using assms(2) by (simp add: retained_def)
  have s: "select (lat d) (retained d) = None" by (simp add: l select_def truthy_def)
  have "gpx_remove_duplicates d =
      Inr \<lparr>lat = None, lon = select (lon d) (retained d), ele = select (ele d) (retained d),
           tstamp = select (tstamp d) (retained d), tzinfo = tzinfo d\<rparr>"
    using assms(2) r s
    by (simp add: gpx_remove_duplicates_def gpx_remove_duplicates_obj_wf [OF assms(1)]
        value_of_def)
  then show ?thesis
    by (simp add: arc_length_axis_def gpx_calculate_distance_def len_def)
qed

lemma interpolate_setup:
  assumes "valid_track fadd d"
  shows "\<exists>d' ds. gpx_remove_duplicates d = Inr d' \<and> wf_track d' \<and> 2 \<le> npoints d' \<and>
           no_dups d' \<and> truthy (lat d) \<and> truthy (lat d') \<and> truthy (lon d') \<and>
           truthy (ele d') = truthy (ele d) \<and> truthy (tstamp d') = truthy (tstamp d) \<and>
           gpx_calculate_distance d' True = Inr ds \<and>
           arc_length_axis fadd d = Inr (cumsum fadd ds) \<and>
           length (cumsum fadd ds) = npoints d' \<and> sorted_wrt (<) (cumsum fadd ds) \<and>
           hd (cumsum fadd ds) = 0 \<and> 0 \<le> last (cumsum fadd ds)"
proof -
  from assms have wf: "wf_track d" by (simp add: valid_track_def)
  from assms obtain xi where
    xi: "arc_length_axis fadd d = Inr xi" "2 \<le> length xi" "sorted_wrt (<) xi"
    by (auto simp: valid_track_def split: sum.splits)
  from xi(1) obtain d0 ds0 where
    a: "gpx_remove_duplicates d = Inr d0" "gpx_calculate_distance d0 True = Inr ds0"
      "xi = cumsum fadd ds0"
    by (auto simp: arc_length_axis_def bind_e_eq_Inr)
  have p: "0 < npoints d"
  proof (rule ccontr)
    assume "\<not> 0 < npoints d"
    then have "npoints d = 0" by simp
    from arc_length_axis_empty [OF wf this, of fadd] xi(1) show False by simp
  qed
  from gpx_remove_duplicates_nonempty [OF wf p] obtain d' where
    d': "gpx_remove_duplicates d = Inr d'" "wf_track d'" "npoints d' = length (retained d)"
      "no_dups d'" "reindexed (lat d) (lat d') (retained d)"
      "reindexed (lon d) (lon d') (retained d)" "reindexed (ele d) (ele d') (retained d)"
      "reindexed (tstamp d) (tstamp d') (retained d)"
    by (elim exE conjE)
  have e: "d0 = d'" using a(1) d'(1) by simp
  from gpx_calculate_distance_wf [OF d'(2), of True] obtain ds where
    ds: "gpx_calculate_distance d' True = Inr ds" "length ds = npoints d'"
      "\<forall>j<npoints d'. ds ! j = (if 0 < j then seg_dist d' True (j - 1) else 0)"
    by (elim exE conjE)
  have e2: "ds0 = ds" using a(2) ds(1) unfolding e by simp
  note x = xi(2,3) [unfolded a(3) e2]
  have n2: "2 \<le> npoints d'" using x(1) ds(2) by simp
  from wf p have tl0: "truthy (lat d)" "truthy (lon d)"
    by (auto simp: wf_track_def npoints_def truthy_def split: option.splits)
  with d'(5,6) have tl: "truthy (lat d')" "truthy (lon d')"
    unfolding reindexed_def by blast+
  from d'(7,8) have te: "truthy (ele d') = truthy (ele d)" "truthy (tstamp d') = truthy (tstamp d)"
    unfolding reindexed_def by blast+
  from ds(2) n2 obtain y ys where c: "ds = y # ys" by (cases ds) auto
  with ds(3) n2 have "y = 0" by force
  with c have h: "hd (cumsum fadd ds) = 0" by simp
  have "cumsum fadd ds \<noteq> []" using c by (simp add: cumsum_def)
  from strict_sorted_hd_le_last [OF x(2) this] h have l: "0 \<le> last (cumsum fadd ds)" by simp
  have ax: "arc_length_axis fadd d = Inr (cumsum fadd ds)" using xi(1) a(3) e2 by simp
  have len: "length (cumsum fadd ds) = npoints d'" using ds(2) by simp
  show ?thesis using d'(1,2,4) n2 tl0(1) tl te ds(1) ax len x(2) h l by blast
qed

lemma interpolate_rows:
  assumes "wf_track d'" "truthy (lat d')" "truthy (lon d')"
  shows "\<exists>yi. np_array2 (map the (filter truthy [lat d', lon d', ele d', tstamp d'])) = Inr yi \<and>
           (\<forall>r\<in>set yi. length r = npoints d') \<and> 2 \<le> length yi \<and>
           (truthy (ele d') \<longrightarrow> 3 \<le> length yi)"
proof -
  let ?yi = "map the (filter truthy [lat d', lon d', ele d', tstamp d'])"
  from assms(1) obtain la lo where c: "lat d' = Some la" "lon d' = Some lo"
    "length lo = length la" "chan_ok (length la) (ele d')" "chan_ok (length la) (tstamp d')"
    "npoints d' = length la"
    by (rule wf_trackE)
  have "\<forall>c\<in>set [lat d', lon d', ele d', tstamp d']. chan_ok (npoints d') c"
    using c by (simp add: chan_ok_def)
  then have rows: "\<forall>r\<in>set ?yi. length r = npoints d'" by (rule rows_same_length)
  then have "np_array2 ?yi = Inr ?yi" by (rule np_array2_ok)
  moreover have "2 \<le> length ?yi" using assms(2,3) by simp
  moreover have "truthy (ele d') \<longrightarrow> 3 \<le> length ?yi" using assms(2,3) by simp
  ultimately show ?thesis using rows by blast
qed

lemma gpx_interpolate_core:
  assumes "pchip_shape_contract f" "valid_track fadd d"
    and "arc_length_axis fadd d = Inr xi"
    and "(case numopt of Some k \<Rightarrow> Inr k
          | None \<Rightarrow> bind_e (last_e xi) (\<lambda>arc_length. ceil_div arc_length dst)) = Inr k'"
    and "0 \<le> k'"
  shows "\<exists>r. gpx_interpolate f fadd d dst numopt = Inr r \<and> has_points r d (nat k')"
proof -
  from interpolate_setup [OF assms(2)] obtain d' ds where
    s: "gpx_remove_duplicates d = Inr d'" "wf_track d'" "2 \<le> npoints d'" "truthy (lat d)"
      "truthy (lat d')" "truthy (lon d')"
      "truthy (ele d') = truthy (ele d)" "truthy (tstamp d') = truthy (tstamp d)"
      "gpx_calculate_distance d' True = Inr ds"
      "arc_length_axis fadd d = Inr (cumsum fadd ds)"
      "length (cumsum fadd ds) = npoints d'" "sorted_wrt (<) (cumsum fadd ds)"
      "hd (cumsum fadd ds) = 0" "0 \<le> last (cumsum fadd ds)"
    by (elim exE conjE)
  let ?xi = "cumsum fadd ds"
  have exi: "xi = ?xi" using assms(3) s(10) by simp
  from s(4) have notall: "\<not> (\<forall>c\<in>set [lat d, lon d, ele d, tstamp d]. c = None \<or> c = Some [])"
    by (auto simp: truthy_def)
  from interpolate_rows [OF s(2,5,6)] obtain yi where
    yi: "np_array2 (map the (filter truthy [lat d', lon d', ele d', tstamp d'])) = Inr yi"
      "\<forall>r\<in>set yi. length r = npoints d'" "2 \<le> length yi"
      "truthy (ele d') \<longrightarrow> 3 \<le> length yi"
    by (elim exE conjE)
  have ne: "?xi \<noteq> []" using s(3,11) by (cases ?xi) simp_all
  have fe: "first_e ?xi = Inr (hd ?xi)" using ne by (cases ?xi) (simp_all add: first_e_def)
  have le: "last_e ?xi = Inr (last ?xi)" using ne by (simp add: last_e_def)
  have "hd ?xi \<le> last ?xi" using s(13,14) by simp
  from np_linspace_ok [OF assms(5) this] obtain x where
    x: "np_linspace (hd ?xi) (last ?xi) k' = Inr x" "length x = nat k'"
      "\<forall>q\<in>set x. hd ?xi \<le> q \<and> q \<le> last ?xi"
    by (elim exE conjE)
  have "\<exists>y. f ?xi yi x = Inr y \<and> length y = length yi \<and> (\<forall>r\<in>set y. length r = length x)"
    using assms(1) s(3,11,12) yi(2) x(3) unfolding pchip_shape_contract_def by simp
  then obtain y where y: "f ?xi yi x = Inr y" "length y = length yi"
    "\<forall>r\<in>set y. length r = nat k'"
    using x(2) by auto
  have "\<exists>r. interp_result y d = Inr r \<and> has_points r d (nat k')"
    using y(2,3) yi(3,4) s(7) by (intro interp_result_ok) simp_all
  then obtain r where r: "interp_result y d = Inr r" "has_points r d (nat k')" by blast
  have res: "(case numopt of None \<Rightarrow> ceil_div (last (cumsum fadd ds)) dst | Some k \<Rightarrow> Inr k) =
      Inr k'"
    using assms(4) unfolding exi by (simp only: le bind_e_Inr)
  have "gpx_interpolate_obj f fadd d dst numopt = Inr (Fresh r)"
    unfolding gpx_interpolate_obj_def
    by (simp only: notall if_False bind_e_Inr s(1,9) res Let_def yi(1) fe le x(1) y(1) r(1))
  then show ?thesis using r(2) by (simp add: gpx_interpolate_def value_of_def)
qed


text \<open>
  With the exact addition, a well-formed track is valid as soon as two consecutive
  points lie at a surface distance that is not zero: the steps of the knots are the
  distances of the track without duplicates, and they are positive. This is a fact of
  the exact addition only; a rounded addition can absorb a positive step.
\<close>

lemma cumsum_from_strict:
  "\<forall>x\<in>set xs. 0 < x \<Longrightarrow>
     sorted_wrt (<) (cumsum_from (+) acc xs) \<and> (\<forall>y\<in>set (cumsum_from (+) acc xs). acc < y)"
proof (induction xs arbitrary: acc)
  case Nil
  then show ?case by simp
next
  case (Cons x xs)
  then have "sorted_wrt (<) (cumsum_from (+) (acc + x) xs) \<and>
             (\<forall>y\<in>set (cumsum_from (+) (acc + x) xs). acc + x < y)"
    by simp
  with Cons.prems show ?case by fastforce
qed

lemma seg_dist_True_pos:
  assumes "seg_dist d False j \<noteq> 0"
  shows "0 < seg_dist d True j"
proof -
  let ?dll = "dist_latlon (chan (lat d) j) (chan (lon d) j) (chan (lat d) (j + 1)) (chan (lon d) (j + 1))"
  from assms have "?dll \<noteq> 0" by (simp add: seg_dist_def)
  moreover have "0 \<le> ?dll" by (rule dist_latlon_nonneg)
  ultimately have p: "0 < ?dll" by simp
  then have "0 < ?dll\<^sup>2 + (chan (ele d) (j + 1) - chan (ele d) j)\<^sup>2"
    by (intro add_pos_nonneg) simp_all
  then have "0 < sqrt (?dll\<^sup>2 + (chan (ele d) (j + 1) - chan (ele d) j)\<^sup>2)"
    by simp
  with p show ?thesis by (simp add: seg_dist_def Let_def)
qed

lemma moving_track_retained:
  assumes "j < npoints d - 1" "seg_dist d False j \<noteq> 0"
  shows "0 < npoints d" "2 \<le> length (retained d)"
proof -
  from assms(1) show "0 < npoints d" by simp
  have "Suc j \<in> set (filter (\<lambda>i. 0 < i \<and> seg_dist d False (i - 1) \<noteq> 0) [0..<npoints d])"
    using assms by simp
  then have "filter (\<lambda>i. 0 < i \<and> seg_dist d False (i - 1) \<noteq> 0) [0..<npoints d] \<noteq> []"
    by (metis empty_iff empty_set)
  then show "2 \<le> length (retained d)"
    by (cases "filter (\<lambda>i. 0 < i \<and> seg_dist d False (i - 1) \<noteq> 0) [0..<npoints d]")
      (simp_all add: retained_def)
qed

lemma valid_track_exact:
  assumes "wf_track d" "j < npoints d - 1" "seg_dist d False j \<noteq> 0"
  shows "valid_track (+) d"
proof -
  note v = moving_track_retained [OF assms(2,3)]
  from gpx_remove_duplicates_nonempty [OF assms(1) v(1)] obtain d' where
    d': "gpx_remove_duplicates d = Inr d'" "wf_track d'" "npoints d' = length (retained d)"
      "no_dups d'"
    by (elim exE conjE)
  let ?n = "npoints d'"
  have n2: "2 \<le> ?n" using d'(3) v(2) by simp
  from gpx_calculate_distance_wf [OF d'(2), of True] obtain ds where
    ds: "gpx_calculate_distance d' True = Inr ds" "length ds = ?n"
      "\<forall>j<?n. ds ! j = (if 0 < j then seg_dist d' True (j - 1) else 0)"
    by (elim exE conjE)
  let ?rest = "map (seg_dist d' True) [0..<?n - 1]"
  have e: "ds = 0 # ?rest"
  proof (rule nth_equalityI)
    show "length ds = length (0 # ?rest)" using ds(2) n2 by simp
  next
    fix i assume "i < length ds"
    then show "ds ! i = (0 # ?rest) ! i" using ds(2,3) by (cases i) simp_all
  qed
  have pos: "\<forall>x\<in>set ?rest. 0 < x"
    using d'(4) by (auto simp: no_dups_def intro: seg_dist_True_pos)
  from cumsum_from_strict [OF pos, of 0]
  have "sorted_wrt (<) (cumsum (+) ds)" unfolding e by (simp add: cumsum_def)
  moreover have "2 \<le> length (cumsum (+) ds)" using ds(2) n2 by simp
  moreover have "arc_length_axis (+) d = Inr (cumsum (+) ds)"
    by (simp add: arc_length_axis_def d'(1) ds(1))
  ultimately show ?thesis using assms(1) by (simp add: valid_track_def)
qed

text \<open>
  What the interpolator raises on the knots, \<^verbatim>\<open>gpx_interpolate\<close> raises: the script has
  no check of its own between the running sum and the call of the interpolator.
\<close>

lemma np_linspace_returns: "0 \<le> k \<Longrightarrow> \<exists>x. np_linspace start stop k = Inr x"
  by (simp add: np_linspace_def Let_def)

lemma gpx_interpolate_raises:
  assumes "wf_track d" "0 < npoints d" "arc_length_axis fadd d = Inr xi"
    and "\<forall>yi x. f xi yi x = Inl e" "0 \<le> k"
  shows "gpx_interpolate f fadd d dst (Some k) = Inl e"
proof -
  from gpx_remove_duplicates_nonempty [OF assms(1,2)] obtain d' where
    d': "gpx_remove_duplicates d = Inr d'" "wf_track d'" "npoints d' = length (retained d)"
      "reindexed (lat d) (lat d') (retained d)" "reindexed (lon d) (lon d') (retained d)"
    by (elim exE conjE)
  from assms(3) d'(1) obtain ds where
    ds: "gpx_calculate_distance d' True = Inr ds" "xi = cumsum fadd ds"
    by (auto simp: arc_length_axis_def bind_e_eq_Inr)
  from gpx_calculate_distance_wf [OF d'(2), of True] ds(1) have "length ds = npoints d'"
    by auto
  then have "length xi = length (retained d)" using d'(3) ds(2) by simp
  then have ne: "xi \<noteq> []" by (cases xi) simp_all
  from assms(1,2) have tl0: "truthy (lat d)" "truthy (lon d)"
    by (auto simp: wf_track_def npoints_def truthy_def split: option.splits)
  with d'(4,5) have tl: "truthy (lat d')" "truthy (lon d')"
    unfolding reindexed_def by blast+
  from tl0(1) have notall: "\<not> (\<forall>c\<in>set [lat d, lon d, ele d, tstamp d]. c = None \<or> c = Some [])"
    by (auto simp: truthy_def)
  from interpolate_rows [OF d'(2) tl] obtain yi where
    yi: "np_array2 (map the (filter truthy [lat d', lon d', ele d', tstamp d'])) = Inr yi"
    by (elim exE conjE)
  have fe: "first_e xi = Inr (hd xi)" using ne by (cases xi) (simp_all add: first_e_def)
  have le: "last_e xi = Inr (last xi)" using ne by (simp add: last_e_def)
  from np_linspace_returns [OF assms(5), of "hd xi" "last xi"] obtain x where
    x: "np_linspace (hd xi) (last xi) k = Inr x"
    by (elim exE)
  have y: "f xi yi x = Inl e" using assms(4) by simp
  have "gpx_interpolate_obj f fadd d dst (Some k) = Inl e"
    unfolding gpx_interpolate_obj_def
    by (simp only: notall if_False bind_e_Inr bind_e_Inl d'(1) ds(1) ds(2) [symmetric] Let_def
        yi option.case fe le x y)
  then show ?thesis by (simp add: gpx_interpolate_def)
qed

lemma linear_interpolate_contract: "pchip_shape_contract linear_interpolate"
  unfolding pchip_shape_contract_def
proof (intro allI impI)
  fix xi :: "real list" and yi :: "real list list" and x :: "real list"
  assume a: "2 \<le> length xi \<and> sorted_wrt (<) xi \<and> (\<forall>r\<in>set yi. length r = length xi) \<and>
        (\<forall>q\<in>set x. hd xi \<le> q \<and> q \<le> last xi)"
  then have "\<not> (length xi < 2 \<or> \<not> sorted_wrt (<) xi \<or> (\<exists>r\<in>set yi. length r \<noteq> length xi))"
    by auto
  then have "linear_interpolate xi yi x = Inr (map (\<lambda>r. map (interp1 (zip xi r)) x) yi)"
    unfolding linear_interpolate_def by (rule if_not_P)
  then show "\<exists>y. linear_interpolate xi yi x = Inr y \<and> length y = length yi \<and>
           (\<forall>r\<in>set y. length r = length x)"
    by simp
qed







section \<open>The run of main for one file\<close>

lemma channel_has_append: "channel_has c n \<Longrightarrow> channel_has (append_chan c v) (Suc n)"
  by (auto simp: channel_has_def append_chan_def split: option.splits)

lemma read_point_all_channels: "all_channels g n \<Longrightarrow> all_channels (read_point g p) (Suc n)"
  by (simp add: all_channels_def read_point_def channel_has_append)

lemma foldl_read_point:
  "all_channels g n \<Longrightarrow> all_channels (foldl read_point g ps) (n + length ps)"
proof (induction ps arbitrary: g n)
  case Nil
  then show ?case by simp
next
  case (Cons p ps)
  from Cons.IH [OF read_point_all_channels [OF Cons.prems], of p] show ?case by simp
qed

lemma gpx_read_all_channels:
  "all_channels (gpx_read tracks) (length (concat (concat tracks)))"
proof -
  have "all_channels \<lparr>lat = Some [], lon = Some [], ele = Some [], tstamp = Some [],
          tzinfo = None\<rparr> 0"
    by (simp add: all_channels_def channel_has_def)
  from foldl_read_point [OF this] show ?thesis by (simp add: gpx_read_def)
qed

lemma all_channels_wf: "all_channels g n \<Longrightarrow> wf_track g \<and> npoints g = n"
  by (auto simp: all_channels_def channel_has_def wf_track_def npoints_def chan_ok_def
      split: option.splits)

lemma gpx_read_wf: "wf_track (gpx_read tracks)"
  using all_channels_wf [OF gpx_read_all_channels] by blast

lemma try_e_None:
  "try_e out w m k = (out', w', None) \<longleftrightarrow> (\<exists>x. m = Inr x \<and> k x = (out', w', None))"
  by (cases m) (simp_all add: try_e_def)

lemma gpx_interpolate_obj_Fresh:
  assumes "gpx_interpolate_obj f fadd x dst n = Inr r" "truthy (lat x)"
  shows "\<exists>v. r = Fresh v"
proof -
  from assms(2) have "\<not> (\<forall>c\<in>set [lat x, lon x, ele x, tstamp x]. c = None \<or> c = Some [])"
    by (auto simp: truthy_def)
  with assms(1) show ?thesis
    unfolding gpx_interpolate_obj_def
    by (simp only: if_False bind_e_eq_Inr Let_def) blast
qed

lemma time_synthesis_frame:
  assumes "time_synthesis p a gd d = Inr d'"
  shows "lat d' = lat d \<and> lon d' = lon d \<and> ele d' = ele d \<and> tzinfo d' = tzinfo d"
proof -
  from assms obtain ts where "d' = d\<lparr>tstamp := ts\<rparr>"
    unfolding time_synthesis_def by (auto simp: bind_e_eq_Inr)
  then show ?thesis by simp
qed

lemma summarise_and_write_None:
  assumes "summarise_and_write to_xml a out w file g v gd = (out', w', None)"
  shows "w' = fst (gpx_write to_xml w (take (length file - 4) file @ ''_interpolated.gpx'') v gd
                    (speed a))"
proof -
  let ?wr = "gpx_write to_xml w (take (length file - 4) file @ ''_interpolated.gpx'') v gd (speed a)"
  from assms obtain s e where
    r: "(case snd ?wr of
          Some err \<Rightarrow> (out @ [Accumulated_distance (sum_list gd), Track_start_time s,
                 Track_end_time e, Total_time (e - s),
                 Average_speed (np_div (sum_list gd) (Fin (e - s)))], fst ?wr, Some err)
        | None \<Rightarrow>
           try_e (out @ [Accumulated_distance (sum_list gd), Track_start_time s,
                 Track_end_time e, Total_time (e - s),
                 Average_speed (np_div (sum_list gd) (Fin (e - s)))]) (fst ?wr) (len (lat v))
             (\<lambda>k. ((out @ [Accumulated_distance (sum_list gd), Track_start_time s,
                 Track_end_time e, Total_time (e - s),
                 Average_speed (np_div (sum_list gd) (Fin (e - s)))]) @
                   [Trackpoints_written k (take (length file - 4) file @ ''_interpolated.gpx'')],
                  fst ?wr, None))) = (out', w', None)"
    unfolding summarise_and_write_def try_e_None Let_def by blast
  show ?thesis
  proof (cases "snd ?wr")
    case None
    with r show ?thesis by (auto simp: try_e_None)
  next
    case (Some err)
    with r show ?thesis by simp
  qed
qed

lemma returned_object_value:
  "fst (returned_object [g] 0 r1) ! snd (returned_object [g] 0 r1) = value_of g r1"
  "fst (returned_object [g] 0 r1) ! 0 = g"
  "fst (returned_object [g] 0 r1) \<noteq> []"
  by (cases r1; simp add: returned_object_def value_of_def)+

lemma returned_object_Fresh:
  "h \<noteq> [] \<Longrightarrow> fst (returned_object h a (Fresh v)) ! 0 = h ! 0"
  "h \<noteq> [] \<Longrightarrow> (fst (returned_object h a (Fresh v)))[0 := u] ! snd (returned_object h a (Fresh v)) = v"
  by (simp_all add: returned_object_def nth_append)

lemma deduplicated_lat_truthy:
  assumes "wf_track g" "gpx_remove_duplicates_obj g = Inr r1" "len (lat (value_of g r1)) = Inr n"
  shows "truthy (lat (value_of g r1))"
proof (cases "length (retained g) = npoints g")
  case True
  with assms(2) have "r1 = Argument" by (simp add: gpx_remove_duplicates_obj_wf [OF assms(1)])
  moreover from True have "0 < npoints g" by (cases "npoints g") simp_all
  then have "truthy (lat g)" by (auto simp: npoints_def truthy_def split: option.splits)
  ultimately show ?thesis by (simp add: value_of_def)
next
  case False
  with assms(2) have l: "lat (value_of g r1) = select (lat g) (retained g)"
    by (auto simp: gpx_remove_duplicates_obj_wf [OF assms(1)] value_of_def)
  show ?thesis
  proof (cases "truthy (lat g)")
    case True
    then show ?thesis by (simp add: l select_def truthy_def)
  next
    case False
    with assms(3) show ?thesis by (simp add: l select_def len_def)
  qed
qed

lemma process_file_written:
  assumes "process_file f fadd to_xml p a w file tracks = (out, w', None)"
    and "\<not> endswith file ''_interpolated.gpx''"
  shows "\<exists>x v gd. gpx_remove_duplicates (gpx_read tracks) = Inr x \<and>
           gpx_interpolate f fadd x (distance a) (num a) = Inr v \<and>
           gpx_calculate_distance (gpx_read tracks) True = Inr gd \<and>
           w' = fst (gpx_write to_xml w (take (length file - 4) file @ ''_interpolated.gpx'')
                       v gd (speed a))"
proof -
  let ?g = "gpx_read tracks"
  from assms(1) obtain r1 n2 r2 gd dr out2 where
    1: "gpx_remove_duplicates_obj ([?g] ! 0) = Inr r1"
    and 2: "len (lat (fst (returned_object [?g] 0 r1) ! snd (returned_object [?g] 0 r1))) = Inr n2"
    and 3: "gpx_interpolate_obj f fadd
              (fst (returned_object [?g] 0 r1) ! snd (returned_object [?g] 0 r1))
              (distance a) (num a) = Inr r2"
    and 4: "gpx_calculate_distance
              (fst (returned_object (fst (returned_object [?g] 0 r1))
                      (snd (returned_object [?g] 0 r1)) r2) ! 0) True = Inr gd"
    and 6: "summarise_and_write to_xml a out2 w file
              ((fst (returned_object (fst (returned_object [?g] 0 r1))
                      (snd (returned_object [?g] 0 r1)) r2))[0 := dr] ! 0)
              ((fst (returned_object (fst (returned_object [?g] 0 r1))
                      (snd (returned_object [?g] 0 r1)) r2))[0 := dr] !
                 snd (returned_object (fst (returned_object [?g] 0 r1))
                      (snd (returned_object [?g] 0 r1)) r2))
              gd = (out, w', None)"
    unfolding process_file_def
    by (simp only: assms(2) if_False Let_def try_e_None) blast
  let ?x = "value_of ?g r1"
  from 1 have o: "gpx_remove_duplicates_obj ?g = Inr r1" by simp
  then have dd: "gpx_remove_duplicates ?g = Inr ?x" by (simp add: gpx_remove_duplicates_def)
  from 2 have "len (lat ?x) = Inr n2" by (simp only: returned_object_value)
  from deduplicated_lat_truthy [OF gpx_read_wf o this] have t: "truthy (lat ?x)" .
  from 3 have i: "gpx_interpolate_obj f fadd ?x (distance a) (num a) = Inr r2"
    by (simp only: returned_object_value)
  from gpx_interpolate_obj_Fresh [OF i t] obtain v where v: "r2 = Fresh v" by blast
  from i v have gi: "gpx_interpolate f fadd ?x (distance a) (num a) = Inr v"
    by (simp add: gpx_interpolate_def value_of_def)
  note ne = returned_object_value(3) [of ?g r1]
  from 4 have gd: "gpx_calculate_distance ?g True = Inr gd"
    unfolding v returned_object_Fresh(1) [OF ne] returned_object_value(2) .
  from 6 have "summarise_and_write to_xml a out2 w file
      ((fst (returned_object (fst (returned_object [?g] 0 r1))
                      (snd (returned_object [?g] 0 r1)) (Fresh v)))[0 := dr] ! 0) v gd =
      (out, w', None)"
    unfolding v returned_object_Fresh(2) [OF ne] .
  from summarise_and_write_None [OF this] dd gi gd show ?thesis by blast
qed

lemma try_e_Inr: "try_e out w (Inr x) k = k x"
  by (simp add: try_e_def)

lemma time_synthesis_ok:
  assumes "wf_track d" "truthy (tstamp d)"
    and "\<forall>s. begintime a = Some s \<and> s \<noteq> [] \<longrightarrow> p s \<noteq> None"
    and "length gd = npoints d"
  shows "\<exists>d' ts. time_synthesis p a gd d = Inr d' \<and> tstamp d' = Some ts \<and>
           length ts = npoints d"
proof -
  from assms(1) obtain la where c: "lat d = Some la" "chan_ok (length la) (tstamp d)"
    "npoints d = length la"
    by (rule wf_trackE)
  from chan_ok_truthy [OF c(2) assms(2)] obtain ts0 where
    ts0: "tstamp d = Some ts0" "length ts0 = length la" "0 < length la"
    by (elim exE conjE)
  from begin_time_shift_ok [OF c(1) ts0(2,3) assms(3)] obtain ts1 where
    ts1: "begin_time_shift p a d (Some ts0) = Inr (Some ts1)" "length ts1 = length la"
    by (elim exE conjE)
  have "length gd = length la" using assms(4) c(3) by simp
  from velocity_retiming_ok [OF c(1) ts1(2) ts0(3) this, of a] obtain ts2 where
    ts2: "velocity_retiming a gd d (Some ts1) = Inr (Some ts2)" "length ts2 = length la"
    by (elim exE conjE)
  from interval_retiming_ok [OF c(1) ts2(2) ts0(3), of a] obtain ts3 where
    ts3: "interval_retiming a d (Some ts2) = Inr (Some ts3)" "length ts3 = length la"
    by (elim exE conjE)
  have "time_synthesis p a gd d = Inr (d\<lparr>tstamp := Some ts3\<rparr>)"
    by (simp add: time_synthesis_def ts0(1) ts1(1) ts2(1) ts3(1))
  then show ?thesis using ts3(2) c(3) by simp
qed

lemma make_point_ok:
  assumes "channel_has (lat v) m" "channel_has (lon v) m"
    and "ele v = None \<or> channel_has (ele v) m" "tstamp v = None \<or> channel_has (tstamp v) m"
    and "i < m"
  shows "\<exists>pt. make_point v None i = Inr pt"
proof -
  from assms(1,2) obtain la lo where l: "lat v = Some la" "length la = m" "lon v = Some lo"
    "length lo = m"
    by (auto simp: channel_has_def split: option.splits)
  have e: "\<exists>r. (if truthy (ele v) then bind_e (getitem (ele v) i) (\<lambda>e. Inr (Some e))
             else Inr None) = Inr r"
    using assms(3,5) by (auto simp: channel_has_def truthy_def split: option.splits)
  have t: "\<exists>r. (if truthy (tstamp v)
             then bind_e (getitem (tstamp v) i) (\<lambda>t. Inr (Some (t, tzinfo v)))
             else Inr None) = Inr r"
    using assms(4,5) by (auto simp: channel_has_def truthy_def split: option.splits)
  from e t obtain re rt where
    "(if truthy (ele v) then bind_e (getitem (ele v) i) (\<lambda>e. Inr (Some e))
             else Inr None) = Inr re"
    "(if truthy (tstamp v)
             then bind_e (getitem (tstamp v) i) (\<lambda>t. Inr (Some (t, tzinfo v)))
             else Inr None) = Inr rt"
    by blast
  then show ?thesis using assms(5) l unfolding make_point_def by simp
qed

lemma map_e_ok: "\<forall>i\<in>set is. \<exists>y. g i = Inr y \<Longrightarrow> \<exists>ys. map_e g is = Inr ys"
proof (induction "is")
  case Nil
  then show ?case by simp
next
  case (Cons i "is")
  then obtain y ys where "g i = Inr y" "map_e g is = Inr ys" by auto
  then show ?case by simp
qed

lemma gpx_write_ok:
  assumes "channel_has (lat v) m" "channel_has (lon v) m"
    and "ele v = None \<or> channel_has (ele v) m" "tstamp v = None \<or> channel_has (tstamp v) m"
    and "\<not> unwritable w file"
  shows "snd (gpx_write to_xml w file v gd False) = None"
proof -
  from assms(1) have n: "len (lat v) = Inr m"
    by (auto simp: channel_has_def len_def split: option.splits)
  have "\<exists>ps. map_e (make_point v None) [0..<m] = Inr ps"
    using make_point_ok [OF assms(1-4)] by (intro map_e_ok) simp
  then obtain ps where "map_e (make_point v None) [0..<m] = Inr ps" by blast
  then show ?thesis using assms(5) by (simp add: gpx_write_def n)
qed

lemma summarise_and_write_ok:
  assumes "tstamp g = Some ts" "ts \<noteq> []" "channel_has (lat v) m"
    and "snd (gpx_write to_xml w (take (length file - 4) file @ ''_interpolated.gpx'') v gd
           (speed a)) = None"
  shows "\<exists>out' w'. summarise_and_write to_xml a out w file g v gd = (out', w', None)"
proof -
  have s: "getitem (tstamp g) 0 = Inr (ts ! 0)" using assms(1,2) by (simp add: getitem_def)
  have e: "getitem_last (tstamp g) = Inr (ts ! (length ts - 1))"
    using assms(1,2) by (simp add: getitem_last_def getitem_def)
  from assms(3) have n: "len (lat v) = Inr m"
    by (auto simp: channel_has_def len_def split: option.splits)
  show ?thesis
    unfolding summarise_and_write_def
    by (simp only: s e try_e_Inr Let_def assms(4) option.case n) blast
qed

lemma has_points_channels:
  assumes "has_points v x m"
  shows "channel_has (lat v) m" "channel_has (lon v) m"
    "ele v = None \<or> channel_has (ele v) m" "tstamp v = None \<or> channel_has (tstamp v) m"
  using assms by (auto simp: has_points_def split: if_splits)

lemma process_file_completes:
  assumes "pchip_shape_contract f" "valid_track fadd (gpx_read tracks)"
    and "\<not> endswith file ''_interpolated.gpx''"
    and "num a = Some k" "0 \<le> k" "\<not> speed a"
    and "\<forall>s. begintime a = Some s \<and> s \<noteq> [] \<longrightarrow> p s \<noteq> None"
    and "\<not> unwritable w (take (length file - 4) file @ ''_interpolated.gpx'')"
  shows "\<exists>out w'. process_file f fadd to_xml p a w file tracks = (out, w', None)"
proof -
  let ?g = "gpx_read tracks"
  let ?n = "length (concat (concat tracks))"
  note ac = gpx_read_all_channels [of tracks]
  from all_channels_wf [OF ac] have wf: "wf_track ?g" and n: "npoints ?g = ?n" by simp_all
  from ac have ln: "len (lat ?g) = Inr ?n"
    by (auto simp: all_channels_def channel_has_def len_def split: option.splits)
  from interpolate_setup [OF assms(2)] obtain x ds where
    x: "gpx_remove_duplicates ?g = Inr x" "wf_track x" "2 \<le> npoints x" "no_dups x"
      "truthy (lat ?g)"
    and ds: "gpx_calculate_distance x True = Inr ds"
    and ax: "arc_length_axis fadd ?g = Inr (cumsum fadd ds)"
      "length (cumsum fadd ds) = npoints x" "sorted_wrt (<) (cumsum fadd ds)"
    by (elim exE conjE)
  from x(5) have pg: "0 < npoints ?g"
    by (auto simp: npoints_def truthy_def split: option.splits)
  from ac pg n have tt: "truthy (tstamp ?g)"
    by (auto simp: all_channels_def channel_has_def truthy_def split: option.splits)
  from x(1) obtain r1 where r1: "gpx_remove_duplicates_obj ?g = Inr r1" "value_of ?g r1 = x"
    by (auto simp: gpx_remove_duplicates_def bind_e_eq_Inr)
  note nx = x(3)
  from x(2) obtain lx where lx: "lat x = Some lx" "npoints x = length lx" by (rule wf_trackE)
  then have lnx: "len (lat x) = Inr (npoints x)" by (simp add: len_def)
  have tx: "truthy (lat x)" using lx nx by (auto simp: truthy_def)
  have px: "0 < npoints x" using nx by simp
  note ix = gpx_remove_duplicates_identity [OF x(2) px x(4)]
  have axx: "arc_length_axis fadd x = Inr (cumsum fadd ds)"
    by (simp add: arc_length_axis_def ix ds)
  have vx: "valid_track fadd x" using x(2) nx ax(2,3) by (simp add: valid_track_def axx)
  have "(case num a of Some k \<Rightarrow> Inr k
         | None \<Rightarrow> bind_e (last_e (cumsum fadd ds))
                     (\<lambda>arc_length. ceil_div arc_length (distance a))) = Inr k"
    by (simp add: assms(4))
  from gpx_interpolate_core [OF assms(1) vx axx this assms(5)] obtain v where
    v: "gpx_interpolate f fadd x (distance a) (num a) = Inr v" "has_points v x (nat k)"
    by (elim exE conjE)
  from v(1) obtain r2 where r2: "gpx_interpolate_obj f fadd x (distance a) (num a) = Inr r2"
    "value_of x r2 = v"
    by (auto simp: gpx_interpolate_def bind_e_eq_Inr)
  from gpx_interpolate_obj_Fresh [OF r2(1) tx] r2(2) have r2v: "r2 = Fresh v"
    by (auto simp: value_of_def)
  from gpx_calculate_distance_wf [OF wf, of True] obtain gd where
    gd: "gpx_calculate_distance ?g True = Inr gd" "length gd = npoints ?g"
    by (elim exE conjE)
  from time_synthesis_ok [OF wf tt assms(7) gd(2)] obtain dr ts where
    dr: "time_synthesis p a gd ?g = Inr dr" "tstamp dr = Some ts" "length ts = npoints ?g"
    by (elim exE conjE)
  have tsne: "ts \<noteq> []" using dr(3) pg by auto
  note hc = has_points_channels [OF v(2)]
  from gpx_write_ok [OF hc assms(8)] assms(6)
  have wr: "snd (gpx_write to_xml w (take (length file - 4) file @ ''_interpolated.gpx'') v gd
                   (speed a)) = None"
    by simp
  note ne = returned_object_value(3) [of ?g r1]
  have f1: "len (lat ([?g] ! 0)) = Inr ?n" using ln by simp
  have f2: "gpx_remove_duplicates_obj ([?g] ! 0) = Inr r1" using r1(1) by simp
  have f3: "len (lat (fst (returned_object [?g] 0 r1) ! snd (returned_object [?g] 0 r1))) =
      Inr (npoints x)"
    unfolding returned_object_value r1(2) by (rule lnx)
  have f4: "gpx_interpolate_obj f fadd
              (fst (returned_object [?g] 0 r1) ! snd (returned_object [?g] 0 r1))
              (distance a) (num a) = Inr (Fresh v)"
    unfolding returned_object_value r1(2) using r2(1) r2v by simp
  have f5: "gpx_calculate_distance
              (fst (returned_object (fst (returned_object [?g] 0 r1))
                      (snd (returned_object [?g] 0 r1)) (Fresh v)) ! 0) True = Inr gd"
    unfolding returned_object_Fresh(1) [OF ne] returned_object_value(2) by (rule gd(1))
  have f6: "time_synthesis p a gd
              (fst (returned_object (fst (returned_object [?g] 0 r1))
                      (snd (returned_object [?g] 0 r1)) (Fresh v)) ! 0) = Inr dr"
    unfolding returned_object_Fresh(1) [OF ne] returned_object_value(2) by (rule dr(1))
  have f7: "(fst (returned_object (fst (returned_object [?g] 0 r1))
                      (snd (returned_object [?g] 0 r1)) (Fresh v)))[0 := dr] ! 0 = dr"
    using ne by (simp add: returned_object_def)
  note f8 = returned_object_Fresh(2) [OF ne, of "snd (returned_object [?g] 0 r1)" v dr]
  show ?thesis
    unfolding process_file_def
    by (simp only: assms(3) if_False Let_def f1 f2 f3 f4 f5 f6 f7 f8 try_e_Inr)
      (rule summarise_and_write_ok [OF dr(2) tsne hc(1) wr])
qed

text \<open>
  Claim C9. In the run of \<^verbatim>\<open>main\<close> for one file, the begin-time shift and the two
  retimings change only the timestamps of the track that was read (latitude, longitude,
  elevation and time zone stay), and the file that is written holds the interpolation of
  the track as it was read: two complete runs that differ only in the begin time, the
  velocity and the interval leave the same file system.
\<close>

theorem retiming_does_not_reach_output:
  assumes "distance b = distance a" "num b = num a" "speed b = speed a"
    and "process_file f fadd to_xml p a w file tracks = (out_a, w_a, None)"
    and "process_file f fadd to_xml q b w file tracks = (out_b, w_b, None)"
  shows "w_a = w_b \<and>
         (\<not> endswith file ''_interpolated.gpx'' \<longrightarrow>
            (\<exists>x v gd. gpx_remove_duplicates (gpx_read tracks) = Inr x \<and>
               gpx_interpolate f fadd x (distance a) (num a) = Inr v \<and>
               gpx_calculate_distance (gpx_read tracks) True = Inr gd \<and>
               w_a = fst (gpx_write to_xml w
                            (take (length file - 4) file @ ''_interpolated.gpx'') v gd
                            (speed a)))) \<and>
         (\<forall>gd d d'. time_synthesis p a gd d = Inr d' \<longrightarrow>
            lat d' = lat d \<and> lon d' = lon d \<and> ele d' = ele d \<and> tzinfo d' = tzinfo d)"
proof (intro conjI allI impI)
  show "w_a = w_b"
  proof (cases "endswith file ''_interpolated.gpx''")
    case True
    with assms(4,5) show ?thesis by (simp add: process_file_def)
  next
    case False
    from process_file_written [OF assms(4) False] obtain x v gd where
      a: "gpx_remove_duplicates (gpx_read tracks) = Inr x"
        "gpx_interpolate f fadd x (distance a) (num a) = Inr v"
        "gpx_calculate_distance (gpx_read tracks) True = Inr gd"
        "w_a = fst (gpx_write to_xml w (take (length file - 4) file @ ''_interpolated.gpx'')
                      v gd (speed a))"
      by (elim exE conjE)
    from process_file_written [OF assms(5) False] obtain x' v' gd' where
      b: "gpx_remove_duplicates (gpx_read tracks) = Inr x'"
        "gpx_interpolate f fadd x' (distance b) (num b) = Inr v'"
        "gpx_calculate_distance (gpx_read tracks) True = Inr gd'"
        "w_b = fst (gpx_write to_xml w (take (length file - 4) file @ ''_interpolated.gpx'')
                      v' gd' (speed b))"
      by (elim exE conjE)
    from a(1) b(1) have "x' = x" by simp
    moreover from a(3) b(3) have "gd' = gd" by simp
    moreover from a(2) b(2) have "v' = v" unfolding assms(1,2) \<open>x' = x\<close> by simp
    ultimately show ?thesis using a(4) b(4) assms(3) by simp
  qed
next
  assume "\<not> endswith file ''_interpolated.gpx''"
  from process_file_written [OF assms(4) this]
  show "\<exists>x v gd. gpx_remove_duplicates (gpx_read tracks) = Inr x \<and>
               gpx_interpolate f fadd x (distance a) (num a) = Inr v \<and>
               gpx_calculate_distance (gpx_read tracks) True = Inr gd \<and>
               w_a = fst (gpx_write to_xml w
                            (take (length file - 4) file @ ''_interpolated.gpx'') v gd
                            (speed a))" .
next
  fix gd d d' assume "time_synthesis p a gd d = Inr d'"
  from time_synthesis_frame [OF this] show "lat d' = lat d" "lon d' = lon d" "ele d' = ele d"
    "tzinfo d' = tzinfo d"
    by simp_all
qed

lemma gpx_read_two_points:
  "gpx_read tracks_two_points =
     \<lparr>lat = Some [0, 0], lon = Some [0, 180], ele = Some [0, 0], tstamp = Some [0, 0],
      tzinfo = Some UTC\<rparr>"
  by (simp add: gpx_read_def tracks_two_points_def read_point_def append_chan_def)

lemma valid_two_points: "valid_track (+) (gpx_read tracks_two_points)"
proof -
  let ?g = "gpx_read tracks_two_points"
  have "seg_dist ?g False 0 = 6371000 * pi"
    by (simp add: gpx_read_two_points seg_dist_def chan_def dist_latlon_great_circle
        great_circle_equator_half)
  then have "seg_dist ?g False 0 \<noteq> 0" by simp
  moreover have "0 < npoints ?g - 1" by (simp add: gpx_read_two_points npoints_def)
  ultimately show ?thesis by (intro valid_track_exact [OF gpx_read_wf])
qed

theorem retiming_does_not_reach_output_witness:
  "distance args_retimed = distance args_three_points \<and>
   num args_retimed = num args_three_points \<and>
   speed args_retimed = speed args_three_points \<and>
   velocity args_retimed \<noteq> velocity args_three_points \<and>
   (\<exists>out_a w_a out_b w_b.
      process_file linear_interpolate (+) to_xml_example (\<lambda>_. None) args_three_points world_empty
        ''ride.gpx'' tracks_two_points = (out_a, w_a, None) \<and>
      process_file linear_interpolate (+) to_xml_example (\<lambda>_. Some 1706788800) args_retimed
        world_empty ''ride.gpx'' tracks_two_points = (out_b, w_b, None) \<and>
      w_a = w_b)"
proof -
  have e: "\<not> endswith ''ride.gpx'' ''_interpolated.gpx''" by (simp add: endswith_def)
  have u: "\<not> unwritable world_empty (take (length ''ride.gpx'' - 4) ''ride.gpx'' @ ''_interpolated.gpx'')"
    by (simp add: world_empty_def)
  have a: "num args_three_points = Some 3" "\<not> speed args_three_points"
    "\<forall>s. begintime args_three_points = Some s \<and> s \<noteq> [] \<longrightarrow> (\<lambda>_. None :: real option) s \<noteq> None"
    by (simp_all add: args_three_points_def args_default_def)
  have b: "num args_retimed = Some 3" "\<not> speed args_retimed"
    "\<forall>s. begintime args_retimed = Some s \<and> s \<noteq> [] \<longrightarrow>
       (\<lambda>_. Some 1706788800 :: real option) s \<noteq> None"
    by (simp_all add: args_retimed_def args_three_points_def args_default_def)
  have eq: "distance args_retimed = distance args_three_points"
    "num args_retimed = num args_three_points" "speed args_retimed = speed args_three_points"
    by (simp_all add: args_retimed_def)
  have ne: "velocity args_retimed \<noteq> velocity args_three_points"
    by (simp add: args_retimed_def args_three_points_def args_default_def)
  have k: "(0::int) \<le> 3" by simp
  from process_file_completes [OF linear_interpolate_contract valid_two_points e a(1) k a(2,3) u,
      of to_xml_example]
  obtain out_a w_a where ra:
    "process_file linear_interpolate (+) to_xml_example (\<lambda>_. None) args_three_points world_empty
        ''ride.gpx'' tracks_two_points = (out_a, w_a, None)"
    by (elim exE)
  from process_file_completes [OF linear_interpolate_contract valid_two_points e b(1) k b(2,3) u,
      of to_xml_example]
  obtain out_b w_b where rb:
    "process_file linear_interpolate (+) to_xml_example (\<lambda>_. Some 1706788800) args_retimed
        world_empty ''ride.gpx'' tracks_two_points = (out_b, w_b, None)"
    by (elim exE)
  from retiming_does_not_reach_output [OF eq ra rb] have "w_a = w_b" by (elim conjE)
  with ra rb eq ne show ?thesis by (intro conjI exI)
qed

end
